theory Spec2Isabelle
  imports Complex_Main
begin

section \<open>Representation of the Python data\<close>

text \<open>
  The quote files are read as raw bytes and decoded with the legacy codec, so two kinds of
  sequences occur. A byte string (Python \<open>bytes\<close>) is a list of 8-bit characters; a text
  string (Python \<open>str\<close>) is a list of Unicode code points, written as natural numbers,
  because decoded text contains characters beyond one byte (CJK names, U+3000, U+FFFD).
  An exception is kept as the value it carries.
\<close>

type_synonym bytes = "char list"
type_synonym ustr = "nat list"
type_synonym exn = string

definition ascii :: "string \<Rightarrow> ustr" where
  "ascii s = map of_char s"

definition CR :: char where "CR = CHR 0x0D"
definition LF :: char where "LF = CHR 0x0A"

definition is_digit :: "nat \<Rightarrow> bool" where
  \<comment> \<open>the character class \<open>[0-9]\<close>\<close>
  "is_digit c = (48 \<le> c \<and> c \<le> 57)"

definition py_isspace :: "nat \<Rightarrow> bool" where
  \<comment> \<open>the characters \<open>str.strip()\<close> removes\<close>
  "py_isspace c =
     ((9 \<le> c \<and> c \<le> 13) \<or> (28 \<le> c \<and> c \<le> 32) \<or> c = 0x85 \<or> c = 0xA0 \<or> c = 0x1680
      \<or> (0x2000 \<le> c \<and> c \<le> 0x200A) \<or> c = 0x2028 \<or> c = 0x2029 \<or> c = 0x202F
      \<or> c = 0x205F \<or> c = 0x3000)"

definition py_strip :: "ustr \<Rightarrow> ustr" where
  "py_strip s = rev (dropWhile py_isspace (rev (dropWhile py_isspace s)))"

definition rstrip_crlf :: "bytes \<Rightarrow> bytes" where
  \<comment> \<open>\<open>line_bytes.rstrip(b'\r\n')\<close>\<close>
  "rstrip_crlf bs = rev (dropWhile (\<lambda>b. b = CR \<or> b = LF) (rev bs))"

definition rstrip_crlf_str :: "ustr \<Rightarrow> ustr" where
  \<comment> \<open>\<open>raw.rstrip("\r\n")\<close>\<close>
  "rstrip_crlf_str s = rev (dropWhile (\<lambda>c. c = 13 \<or> c = 10) (rev s))"

definition py_slice :: "'a list \<Rightarrow> nat \<Rightarrow> nat \<Rightarrow> 'a list" where
  \<comment> \<open>\<open>xs[start:stop]\<close> for non-negative offsets: both are clamped to the length\<close>
  "py_slice xs start stop =
     (let n = length xs; lo = min start n; hi = min stop n
      in if lo < hi then map (\<lambda>i. xs ! i) [lo..<hi] else [])"

definition py_suffix :: "nat \<Rightarrow> 'a list \<Rightarrow> 'a list" where
  \<comment> \<open>\<open>xs[-k:]\<close> for \<open>k > 0\<close>: the last \<open>k\<close> elements, all of them when there are fewer\<close>
  "py_suffix k xs = drop (length xs - k) xs"

definition py_drop_suffix :: "nat \<Rightarrow> 'a list \<Rightarrow> 'a list" where
  \<comment> \<open>\<open>xs[:-k]\<close> for \<open>k > 0\<close>: all but the last \<open>k\<close> elements\<close>
  "py_drop_suffix k xs = take (length xs - k) xs"

definition zfill :: "nat \<Rightarrow> ustr \<Rightarrow> ustr" where
  \<comment> \<open>\<open>s.zfill(width)\<close>: zeros on the left, after a leading sign if there is one\<close>
  "zfill width s =
     (if width \<le> length s then s
      else (case s of
              [] \<Rightarrow> replicate width 48
            | c # cs \<Rightarrow>
                if c = 43 \<or> c = 45 then c # replicate (width - length s) 48 @ cs
                else replicate (width - length s) 48 @ s))"

definition digits_value :: "ustr \<Rightarrow> nat" where
  "digits_value s = foldl (\<lambda>a c. 10 * a + (c - 48)) 0 s"

definition py_int :: "ustr \<Rightarrow> nat option" where
  \<comment> \<open>\<open>int(s)\<close> on a string of the digits 0-9; the empty string and any other character
      are the \<open>ValueError\<close> of the source, here \<open>None\<close>\<close>
  "py_int s = (if s \<noteq> [] \<and> list_all is_digit s then Some (digits_value s) else None)"

fun str_nat :: "nat \<Rightarrow> ustr" where
  "str_nat n = (if n < 10 then [48 + n] else str_nat (n div 10) @ [48 + n mod 10])"

declare str_nat.simps [simp del]

definition round_half_even :: "rat \<Rightarrow> int" where
  "round_half_even x =
     (let f = \<lfloor>x\<rfloor>; r = x - of_int f
      in if r < 1 / 2 then f else if 1 / 2 < r then f + 1 else if even f then f else f + 1)"

definition py_round :: "rat \<Rightarrow> nat \<Rightarrow> rat" where
  \<comment> \<open>\<open>round(x, ndigits)\<close>\<close>
  "py_round x ndigits = of_int (round_half_even (x * 10 ^ ndigits)) / 10 ^ ndigits"

definition format_4f :: "rat \<Rightarrow> ustr" where
  \<comment> \<open>\<open>f"{v:.4f}"\<close> for \<open>v \<ge> 0\<close>\<close>
  "format_4f v =
     (let n = nat (round_half_even (v * 10000))
      in str_nat (n div 10000) @ [46] @ zfill 4 (str_nat (n mod 10000)))"

section \<open>Configuration\<close>

text \<open>
  Prices are floating-point numbers in the source. Every price the decoder produces is the
  double nearest to a multiple of 1/10000 below 100000 (\<open>parse_9digit_price_float\<close>
  below). For the checks of the validator the model keeps that multiple itself, exactly, as
  a rational (\<open>parse_9digit_price\<close>): comparing two such doubles gives the result of
  comparing the exact values, because distinct multiples of 1/10000 in this range round to
  distinct doubles in the same order. \<open>round(value, 4)\<close> and the format \<open>.4f\<close> round
  to four decimals, a tie going to the even neighbour.
\<close>

definition MIN_PRICE :: rat where "MIN_PRICE = 1 / 100"
definition MAX_PRICE :: rat where "MAX_PRICE = 1000000"

datatype field =
  stock_id_f | stock_name_f | open_price_raw_f | high_price_raw_f | low_price_raw_f
  | close_price_raw_f | change_flag_f

fun BYTE_POS :: "field \<Rightarrow> nat \<times> nat" where
  "BYTE_POS stock_id_f = (0, 6)"
| "BYTE_POS stock_name_f = (6, 22)"
| "BYTE_POS open_price_raw_f = (22, 31)"
| "BYTE_POS high_price_raw_f = (31, 40)"
| "BYTE_POS low_price_raw_f = (40, 49)"
| "BYTE_POS close_price_raw_f = (49, 58)"
| "BYTE_POS change_flag_f = (58, 59)"

definition all_fields :: "field list" where
  "all_fields = [stock_id_f, stock_name_f, open_price_raw_f, high_price_raw_f,
                 low_price_raw_f, close_price_raw_f, change_flag_f]"

section \<open>Implied-decimal decoder\<close>

definition parse_9digit_price :: "ustr \<Rightarrow> rat option" where
  "parse_9digit_price raw_str =
     (if raw_str = [] then None
      else
        let digits = filter is_digit raw_str in
        if digits = [] then None
        else
          let digits = (if length digits < 9 then zfill 9 digits else py_suffix 9 digits) in
          (case py_int (py_drop_suffix 4 digits) of
             None \<Rightarrow> None
           | Some whole \<Rightarrow>
               (case py_int (py_suffix 4 digits) of
                  None \<Rightarrow> None
                | Some frac4 \<Rightarrow> Some (py_round (of_nat whole + of_nat frac4 / 10000) 4))))"

definition parse_9digit_price_diag :: "ustr \<Rightarrow> rat option" where
  \<comment> \<open>the copy in \<open>extract_quotes_diagnostic.py\<close>: no early return on the empty string\<close>
  "parse_9digit_price_diag s =
     (let digits = filter is_digit s in
      if digits = [] then None
      else
        let digits = (if length digits < 9 then zfill 9 digits else py_suffix 9 digits) in
        (case py_int (py_drop_suffix 4 digits) of
           None \<Rightarrow> None
         | Some whole \<Rightarrow>
             (case py_int (py_suffix 4 digits) of
                None \<Rightarrow> None
              | Some frac4 \<Rightarrow> Some (py_round (of_nat whole + of_nat frac4 / 10000) 4))))"

definition sane_price :: "rat option \<Rightarrow> bool" where
  "sane_price v = (case v of None \<Rightarrow> False | Some x \<Rightarrow> MIN_PRICE \<le> x \<and> x \<le> MAX_PRICE)"

text \<open>
  The value the source returns is a double. A double is kept here as the rational number it
  stands for, and \<open>to_double\<close> rounds a rational to the nearest double, a tie going to
  the even significand: \<open>find_ulp\<close> looks for the spacing \<open>u\<close> of the doubles around
  \<open>x\<close>, the power of two with \<open>2^52 u \<le> x < 2^53 u\<close>, and \<open>x\<close> is rounded to a
  multiple of it. Numbers too small or too large for a spacing to be found within 2200
  steps are not doubles in the normal range and are left as they are.
\<close>

fun find_ulp :: "nat \<Rightarrow> rat \<Rightarrow> rat \<Rightarrow> rat" where
  "find_ulp 0 x u = u"
| "find_ulp (Suc k) x u =
     (if x < 2 ^ 52 * u then find_ulp k x (u / 2)
      else if 2 ^ 53 * u \<le> x then find_ulp k x (2 * u)
      else u)"

definition nearest_double :: "rat \<Rightarrow> rat" where
  "nearest_double x =
     (let u = find_ulp 2200 x 1
      in if 0 < u \<and> 2 ^ 52 * u \<le> x \<and> x < 2 ^ 53 * u
         then of_int (round_half_even (x / u)) * u
         else x)"

definition to_double :: "rat \<Rightarrow> rat" where
  "to_double x =
     (if x = 0 then 0 else if x < 0 then - nearest_double (- x) else nearest_double x)"

definition float_round :: "rat \<Rightarrow> nat \<Rightarrow> rat" where
  \<comment> \<open>\<open>round(x, ndigits)\<close> on a double: the decimal rounding of its exact value, as a double\<close>
  "float_round x ndigits = to_double (py_round x ndigits)"

definition parse_9digit_price_float :: "ustr \<Rightarrow> rat option" where
  \<comment> \<open>\<open>parse_9digit_price\<close> with the arithmetic of doubles: \<open>frac / 10000.0\<close>, the sum
      and \<open>round\<close> each give a double\<close>
  "parse_9digit_price_float raw_str =
     (if raw_str = [] then None
      else
        let digits = filter is_digit raw_str in
        if digits = [] then None
        else
          let digits = (if length digits < 9 then zfill 9 digits else py_suffix 9 digits) in
          (case py_int (py_drop_suffix 4 digits) of
             None \<Rightarrow> None
           | Some whole \<Rightarrow>
               (case py_int (py_suffix 4 digits) of
                  None \<Rightarrow> None
                | Some frac4 \<Rightarrow>
                    let value = to_double (of_nat whole + to_double (of_nat frac4 / 10000))
                    in Some (float_round value 4))))"

text \<open>
  The spec's round trip re-encodes a decoded price as \<open>whole * 10000 + fraction\<close>,
  zero-padded to 9 digits. The source has no encoder; this one follows that sentence, on
  the double that the decoder returns: the number of ten-thousandths is
  \<open>round(v * 10000)\<close>, and \<open>whole\<close> and \<open>fraction\<close> are its quotient and remainder by
  10000.
\<close>

definition reencode_9digit :: "rat \<Rightarrow> ustr" where
  "reencode_9digit v =
     (let n = nat (round_half_even (to_double (v * 10000)));
          whole = n div 10000;
          fraction = n mod 10000
      in zfill 9 (str_nat (whole * 10000 + fraction)))"

section \<open>Byte slicer\<close>

text \<open>
  The table of the legacy codec is not part of the repository. It enters as a parameter:
  a strict one-character decoder that, given the bytes still to decode, returns the code
  point at their head and the number of bytes it takes, or fails. \<open>bytes.decode\<close> walks
  the bytes with it. Where it fails, the \<open>errors\<close> argument decides: \<open>'strict'\<close>, the
  default, raises \<open>UnicodeDecodeError\<close>; \<open>'replace'\<close>, which the source always passes,
  puts U+FFFD there and resumes one byte later.
\<close>

type_synonym codec = "bytes \<Rightarrow> (nat \<times> nat) option"

definition REPLACEMENT :: nat where "REPLACEMENT = 0xFFFD"

datatype errors_mode = Strict | Replace

function py_decode :: "codec \<Rightarrow> errors_mode \<Rightarrow> bytes \<Rightarrow> exn + ustr" where
  "py_decode cdc errors [] = Inr []"
| "py_decode cdc errors (b # bs) =
     (case cdc (b # bs) of
        Some (c, n) \<Rightarrow>
          (case py_decode cdc errors (drop (n - 1) bs) of
             Inl e \<Rightarrow> Inl e
           | Inr s \<Rightarrow> Inr (c # s))
      | None \<Rightarrow>
          (case errors of
             Strict \<Rightarrow> Inl ''UnicodeDecodeError''
           | Replace \<Rightarrow>
               (case py_decode cdc errors bs of
                  Inl e \<Rightarrow> Inl e
                | Inr s \<Rightarrow> Inr (REPLACEMENT # s))))"
  by pat_completeness auto
termination
  by (relation "measure (\<lambda>(cdc, errors, bs). length bs)") auto

definition decode_replace :: "codec \<Rightarrow> bytes \<Rightarrow> ustr" where
  \<comment> \<open>the text of \<open>bs.decode(ENCODING, errors='replace')\<close>\<close>
  "decode_replace cdc bs = (case py_decode cdc Replace bs of Inr s \<Rightarrow> s | Inl e \<Rightarrow> [])"

definition slice_bytes :: "codec \<Rightarrow> bytes \<Rightarrow> nat \<Rightarrow> nat \<Rightarrow> ustr" where
  "slice_bytes cdc line_bytes start stop =
     (case py_decode cdc Replace (py_slice line_bytes start stop) of
        Inr s \<Rightarrow> py_strip s
      | Inl e \<Rightarrow> [])"

definition ascii_codec :: codec where
  \<comment> \<open>the single-byte part every instance of the codec shares: a byte below 0x80 is itself\<close>
  "ascii_codec bs =
     (case bs of [] \<Rightarrow> None
      | b # _ \<Rightarrow> if (of_char b :: nat) < 128 then Some (of_char b, 1) else None)"

definition cp950_step :: "(char \<Rightarrow> char \<Rightarrow> nat option) \<Rightarrow> codec" where
  \<comment> \<open>the shape of the cp950 decoder over its two-byte table: a byte below 0x80 is itself,
      any other byte is a lead byte that needs a second byte and an entry of the table\<close>
  "cp950_step tbl bs =
     (case bs of
        [] \<Rightarrow> None
      | b # rest \<Rightarrow>
          if (of_char b :: nat) < 128 then Some (of_char b, 1)
          else (case rest of
                  [] \<Rightarrow> None
                | b2 # _ \<Rightarrow> (case tbl b b2 of Some c \<Rightarrow> Some (c, 2) | None \<Rightarrow> None)))"

definition big5_sample :: "char \<Rightarrow> char \<Rightarrow> nat option" where
  \<comment> \<open>two entries of the table: A4 40 is U+4E00 and A4 62 is U+5203; no entry has the lead
      byte FF\<close>
  "big5_sample b b2 =
     (if b = CHR 0xA4 \<and> b2 = CHR 0x40 then Some 0x4E00
      else if b = CHR 0xA4 \<and> b2 = CHR 0x62 then Some 0x5203
      else None)"

section \<open>Date resolver\<close>

text \<open>
  The regular expressions use \<open>\d\<close>, which on text matches every Unicode decimal digit.
  That class is a table of the regex library; it is the parameter \<open>isd\<close>. The functions
  below are the three patterns of the source, each with the leftmost-match rule of
  \<open>re.search\<close>; \<open>$\<close> also matches before a final newline. The header is what opening
  the file in text mode and reading it gives: an exception, after which the source goes on
  to the file name, or the decoded lines; a failure after some lines were read leaves the
  lines read before it.
\<close>

fun search_d8 :: "(nat \<Rightarrow> bool) \<Rightarrow> ustr \<Rightarrow> ustr option" where
  \<comment> \<open>\<open>date_header_re.search(line)\<close>, group 1\<close>
  "search_d8 isd [] = None"
| "search_d8 isd (c # cs) =
     (if 8 \<le> length (c # cs) \<and> list_all isd (take 8 (c # cs)) then Some (take 8 (c # cs))
      else search_d8 isd cs)"

definition match_tag_here :: "(nat \<Rightarrow> bool) \<Rightarrow> ustr \<Rightarrow> ustr option" where
  \<comment> \<open>\<open>\((\d{3,8})\)\<close> at the head of the text: the longest run first\<close>
  "match_tag_here isd s =
     (case s of
        [] \<Rightarrow> None
      | c # rest \<Rightarrow>
          if c = 40 then
            (case find (\<lambda>k. k < length rest \<and> list_all isd (take k rest) \<and> rest ! k = 41)
                       [8, 7, 6, 5, 4, 3] of
               Some k \<Rightarrow> Some (take k rest)
             | None \<Rightarrow> None)
          else None)"

fun search_tag :: "(nat \<Rightarrow> bool) \<Rightarrow> ustr \<Rightarrow> ustr option" where
  \<comment> \<open>\<open>re.search(r'\((\d{3,8})\)', path.name)\<close>, group 1\<close>
  "search_tag isd [] = None"
| "search_tag isd (c # cs) =
     (case match_tag_here isd (c # cs) of
        Some t \<Rightarrow> Some t
      | None \<Rightarrow> search_tag isd cs)"

definition match_year :: "(nat \<Rightarrow> bool) \<Rightarrow> ustr \<Rightarrow> bool" where
  \<comment> \<open>\<open>re.match(r'^\d{4}$', year_hint)\<close>\<close>
  "match_year isd y =
     ((length y = 4 \<and> list_all isd y) \<or> (length y = 5 \<and> list_all isd (take 4 y) \<and> y ! 4 = 10))"

definition checked_hint :: "(nat \<Rightarrow> bool) \<Rightarrow> ustr option \<Rightarrow> ustr option" where
  \<comment> \<open>\<open>year_hint and re.match(r'^\d{4}$', year_hint)\<close>: the hint when the test passes\<close>
  "checked_hint isd year_hint =
     (case year_hint of
        None \<Rightarrow> None
      | Some y \<Rightarrow> if y \<noteq> [] \<and> match_year isd y then Some y else None)"

fun scan_header :: "(nat \<Rightarrow> bool) \<Rightarrow> nat \<Rightarrow> ustr list \<Rightarrow> ustr option" where
  \<comment> \<open>the \<open>for _ in range(3)\<close> loop over \<open>f.readline()\<close>\<close>
  "scan_header isd 0 lines = None"
| "scan_header isd (Suc k) [] = None"
| "scan_header isd (Suc k) (line # rest) =
     (if line = [] then None
      else (case search_d8 isd line of
              Some d \<Rightarrow> Some d
            | None \<Rightarrow> scan_header isd k rest))"

definition filename_rule :: "(nat \<Rightarrow> bool) \<Rightarrow> ustr \<Rightarrow> ustr option \<Rightarrow> ustr option" where
  "filename_rule isd name year_hint =
     (case search_tag isd name of
        None \<Rightarrow> None
      | Some m \<Rightarrow>
          let tag = zfill 4 m in
          (case (if length tag = 4 then checked_hint isd year_hint else None) of
             Some y \<Rightarrow> Some (y @ tag)
           | None \<Rightarrow> if length tag = 8 then Some tag else None))"

definition derive_date_for_file ::
  "(nat \<Rightarrow> bool) \<Rightarrow> exn + ustr list \<Rightarrow> ustr \<Rightarrow> ustr option \<Rightarrow> ustr" where
  \<comment> \<open>the file is what opening and reading it in text mode gives: an exception or its
      decoded lines; \<open>name\<close> is \<open>path.name\<close>\<close>
  "derive_date_for_file isd header name year_hint =
     (case (case header of Inl e \<Rightarrow> None | Inr lines \<Rightarrow> scan_header isd 3 lines) of
        Some d \<Rightarrow> d
      | None \<Rightarrow>
          (case filename_rule isd name year_hint of
             Some d \<Rightarrow> d
           | None \<Rightarrow>
               (case checked_hint isd year_hint of
                  Some y \<Rightarrow> y @ ascii ''0101''
                | None \<Rightarrow> ascii ''19700101'')))"

text \<open>
  The copy in \<open>extract_stock_for_ml.py\<close> passes every candidate through
  \<open>datetime.strptime(_, '%Y%m%d')\<close>, here the parameter \<open>valid\<close>, and does not test the
  year hint against the four-digit pattern.
\<close>

fun scan_header_ml :: "(nat \<Rightarrow> bool) \<Rightarrow> (ustr \<Rightarrow> bool) \<Rightarrow> nat \<Rightarrow> ustr list \<Rightarrow> ustr option" where
  "scan_header_ml isd valid 0 lines = None"
| "scan_header_ml isd valid (Suc k) [] = None"
| "scan_header_ml isd valid (Suc k) (line # rest) =
     (if line = [] then None
      else (case search_d8 isd line of
              Some d \<Rightarrow> if valid d then Some d else scan_header_ml isd valid k rest
            | None \<Rightarrow> scan_header_ml isd valid k rest))"

definition truthy_hint :: "ustr option \<Rightarrow> ustr option" where
  \<comment> \<open>\<open>year_hint\<close> used as a condition: neither \<open>None\<close> nor empty\<close>
  "truthy_hint year_hint =
     (case year_hint of None \<Rightarrow> None | Some y \<Rightarrow> if y \<noteq> [] then Some y else None)"

definition filename_rule_ml ::
  "(nat \<Rightarrow> bool) \<Rightarrow> (ustr \<Rightarrow> bool) \<Rightarrow> ustr \<Rightarrow> ustr option \<Rightarrow> ustr option" where
  "filename_rule_ml isd valid name year_hint =
     (case search_tag isd name of
        None \<Rightarrow> None
      | Some m \<Rightarrow>
          let tag = zfill 4 m in
          (case (if length tag = 4 then truthy_hint year_hint else None) of
             Some y \<Rightarrow> (let date_str = y @ tag in if valid date_str then Some date_str else None)
           | None \<Rightarrow> if length tag = 8 \<and> valid tag then Some tag else None))"

definition derive_date_for_file_ml ::
  "(nat \<Rightarrow> bool) \<Rightarrow> (ustr \<Rightarrow> bool) \<Rightarrow> exn + ustr list \<Rightarrow> ustr \<Rightarrow> ustr option \<Rightarrow> ustr" where
  "derive_date_for_file_ml isd valid header name year_hint =
     (case (case header of Inl e \<Rightarrow> None | Inr lines \<Rightarrow> scan_header_ml isd valid 3 lines) of
        Some d \<Rightarrow> d
      | None \<Rightarrow>
          (case filename_rule_ml isd valid name year_hint of
             Some d \<Rightarrow> d
           | None \<Rightarrow>
               (case truthy_hint year_hint of
                  Some y \<Rightarrow> y @ ascii ''0101''
                | None \<Rightarrow> ascii ''19700101'')))"

definition header_candidates :: "(nat \<Rightarrow> bool) \<Rightarrow> exn + ustr list \<Rightarrow> ustr list" where
  \<comment> \<open>the leftmost run of eight digits of each of the first three lines that has one;
      nothing when the file cannot be read\<close>
  "header_candidates isd header =
     (case header of
        Inl e \<Rightarrow> []
      | Inr lines \<Rightarrow> List.map_filter (search_d8 isd) (takeWhile (\<lambda>l. l \<noteq> []) (take 3 lines)))"

definition year_hint_ok :: "(nat \<Rightarrow> bool) \<Rightarrow> ustr option \<Rightarrow> bool" where
  \<comment> \<open>the hint the callers pass: absent, or four digits\<close>
  "year_hint_ok isd year_hint =
     (case year_hint of None \<Rightarrow> True | Some y \<Rightarrow> length y = 4 \<and> list_all isd y)"

definition date8 :: "(nat \<Rightarrow> bool) \<Rightarrow> ustr \<Rightarrow> bool" where
  "date8 isd d = (length d = 8 \<and> list_all isd d)"

definition month_day_ok :: "ustr \<Rightarrow> bool" where
  \<comment> \<open>an instance of \<open>valid\<close> to run the definitions with: eight digits 0-9 whose month is
      1 to 12 and whose day is 1 to 31\<close>
  "month_day_ok d =
     (length d = 8 \<and> list_all is_digit d
      \<and> (let m = digits_value (take 2 (drop 4 d)); dd = digits_value (drop 6 d)
         in 1 \<le> m \<and> m \<le> 12 \<and> 1 \<le> dd \<and> dd \<le> 31))"

section \<open>Record validator and file processor\<close>

record quote_row =
  date :: ustr
  stock_id :: ustr
  closing_price :: ustr
  change_flag :: ustr
  stock_name :: ustr
  source_file :: ustr
  line_no :: nat

text \<open>
  A reason is a string in the source; the ones built with an f-string carry their
  argument here: the exception, or the price that was out of bounds.
\<close>

datatype reject_reason =
  line_too_short
  | padded_short_line
  | slice_error exn
  | empty_stock_id
  | close_unparseable
  | close_out_of_bounds rat
  | file_read_error exn

record debug_row =
  dbg_file :: ustr
  dbg_line_no :: nat
  reason :: reject_reason
  line_preview :: ustr
  dbg_close_raw :: ustr

datatype outcome = Skipped | Rejected debug_row | Accepted quote_row

definition min_len :: nat where
  "min_len = snd (BYTE_POS change_flag_f)"

definition extract_fields :: "codec \<Rightarrow> bytes \<Rightarrow> exn + (ustr \<times> ustr \<times> ustr \<times> ustr)" where
  \<comment> \<open>the \<open>try\<close> block of \<open>extract_quotes_byte_level.process_file\<close>\<close>
  "extract_fields cdc line_bytes =
     (let sid = slice_bytes cdc line_bytes (fst (BYTE_POS stock_id_f)) (snd (BYTE_POS stock_id_f));
          sname = slice_bytes cdc line_bytes (fst (BYTE_POS stock_name_f))
                    (snd (BYTE_POS stock_name_f));
          close_raw = slice_bytes cdc line_bytes (fst (BYTE_POS close_price_raw_f))
                        (snd (BYTE_POS close_price_raw_f));
          change_sym_bytes = py_slice line_bytes (fst (BYTE_POS change_flag_f))
                               (snd (BYTE_POS change_flag_f))
      in case py_decode cdc Replace change_sym_bytes of
           Inl e \<Rightarrow> Inl e
         | Inr change_sym \<Rightarrow> Inr (sid, sname, close_raw, change_sym))"

definition validate ::
  "ustr \<Rightarrow> ustr \<Rightarrow> nat \<Rightarrow> ustr \<Rightarrow> ustr \<times> ustr \<times> ustr \<times> ustr \<Rightarrow> outcome" where
  \<comment> \<open>the checks after the extraction, the same in both programs\<close>
  "validate fname date_tag lineno preview flds =
     (case flds of (sid, sname, close_raw, change_sym) \<Rightarrow>
        let close_val = parse_9digit_price close_raw in
        if sid = [] then
          Rejected \<lparr>dbg_file = fname, dbg_line_no = lineno, reason = empty_stock_id,
                    line_preview = preview, dbg_close_raw = close_raw\<rparr>
        else
          (case close_val of
             None \<Rightarrow>
               Rejected \<lparr>dbg_file = fname, dbg_line_no = lineno, reason = close_unparseable,
                         line_preview = preview, dbg_close_raw = close_raw\<rparr>
           | Some v \<Rightarrow>
               if \<not> sane_price close_val then
                 Rejected \<lparr>dbg_file = fname, dbg_line_no = lineno, reason = close_out_of_bounds v,
                           line_preview = preview, dbg_close_raw = close_raw\<rparr>
               else
                 Accepted \<lparr>date = date_tag, stock_id = sid, closing_price = format_4f v,
                           change_flag = py_strip change_sym, stock_name = sname,
                           source_file = fname, line_no = lineno\<rparr>))"

text \<open>
  The body of the loop over the lines when \<open>verbose\<close> is off, with the extraction step as
  an argument, so that a property can be stated for whatever the extraction would do. The
  body in full, with its prints, is \<open>loop_body\<close> below.
\<close>

definition process_line_with ::
  "(bytes \<Rightarrow> exn + (ustr \<times> ustr \<times> ustr \<times> ustr)) \<Rightarrow> codec \<Rightarrow> ustr \<Rightarrow> ustr \<Rightarrow> nat \<Rightarrow> bytes
   \<Rightarrow> outcome" where
  "process_line_with extract cdc fname date_tag lineno raw =
     (let line_bytes = rstrip_crlf raw;
          preview = decode_replace cdc (py_slice line_bytes 0 100)
      in
        if length line_bytes = 0 then Skipped
        else if length line_bytes < min_len then
          Rejected \<lparr>dbg_file = fname, dbg_line_no = lineno, reason = line_too_short,
                    line_preview = preview, dbg_close_raw = []\<rparr>
        else
          (case extract line_bytes of
             Inl e \<Rightarrow>
               Rejected \<lparr>dbg_file = fname, dbg_line_no = lineno, reason = slice_error e,
                         line_preview = preview, dbg_close_raw = []\<rparr>
           | Inr flds \<Rightarrow> validate fname date_tag lineno preview flds))"

definition process_line :: "codec \<Rightarrow> ustr \<Rightarrow> ustr \<Rightarrow> nat \<Rightarrow> bytes \<Rightarrow> outcome" where
  "process_line cdc = process_line_with (extract_fields cdc) cdc"

text \<open>
  With \<open>verbose\<close> on, the source prints. A print writes to the console and may raise
  (\<open>UnicodeEncodeError\<close> when the console cannot encode a character). The text written is
  not kept; what is kept is each call of \<open>print\<close>, with the values it formats, and the
  console as the parameter that says which calls raise. The prints before the \<open>try\<close> are
  not guarded: an exception there leaves \<open>process_file\<close>. The prints inside it, those of
  the loop included, are guarded by the handler meant for the read.
\<close>

datatype message =
  Rule
  | Processing ustr
  | DateTag ustr
  | TotalLines nat
  | FirstLinesHeading
  | LinePreview nat nat ustr
  | SampleLine nat ustr
  | LineByteLength nat
  | FirstBytes bytes
  | DecodedLine ustr
  | FullLineLength nat
  | LineText ustr
  | FieldText field ustr
  | ParsedClose "rat option"

type_synonym console = "message \<Rightarrow> exn option"

fun print_all :: "console \<Rightarrow> message list \<Rightarrow> exn option" where
  \<comment> \<open>a run of prints: the first that raises ends it\<close>
  "print_all out [] = None"
| "print_all out (m # ms) = (case out m of Some e \<Rightarrow> Some e | None \<Rightarrow> print_all out ms)"

definition sample_messages ::
  "codec \<Rightarrow> nat \<Rightarrow> bytes \<Rightarrow> ustr \<times> ustr \<times> ustr \<times> ustr \<Rightarrow> message list" where
  \<comment> \<open>the prints of the block \<open>if verbose and sample_count < 5\<close>\<close>
  "sample_messages cdc lineno line_bytes flds =
     (case flds of (sid, sname, close_raw, change_sym) \<Rightarrow>
        let line_str = decode_replace cdc line_bytes;
            open_raw = slice_bytes cdc line_bytes (fst (BYTE_POS open_price_raw_f))
                         (snd (BYTE_POS open_price_raw_f));
            high_raw = slice_bytes cdc line_bytes (fst (BYTE_POS high_price_raw_f))
                         (snd (BYTE_POS high_price_raw_f));
            low_raw = slice_bytes cdc line_bytes (fst (BYTE_POS low_price_raw_f))
                        (snd (BYTE_POS low_price_raw_f))
        in [SampleLine lineno sid, LineByteLength (length line_bytes),
            FirstBytes (py_slice line_bytes 0 80), DecodedLine (py_slice line_str 0 80),
            FieldText stock_id_f sid, FieldText stock_name_f sname,
            FieldText open_price_raw_f open_raw, FieldText high_price_raw_f high_raw,
            FieldText low_price_raw_f low_raw, FieldText close_price_raw_f close_raw,
            FieldText change_flag_f change_sym])"

definition file_error_row :: "ustr \<Rightarrow> exn \<Rightarrow> debug_row" where
  \<comment> \<open>the record of the outer handler\<close>
  "file_error_row fname e =
     \<lparr>dbg_file = fname, dbg_line_no = 0, reason = file_read_error e, line_preview = [],
      dbg_close_raw = []\<rparr>"

definition loop_body_with ::
  "(bytes \<Rightarrow> exn + (ustr \<times> ustr \<times> ustr \<times> ustr)) \<Rightarrow> console \<Rightarrow> bool \<Rightarrow> codec \<Rightarrow> ustr \<Rightarrow> ustr
   \<Rightarrow> nat \<Rightarrow> nat \<Rightarrow> bytes \<Rightarrow> exn + outcome \<times> nat" where
  \<comment> \<open>one pass of the loop of \<open>extract_quotes_byte_level.process_file\<close>: an exception, or
      the outcome for the line and the new \<open>sample_count\<close>; \<open>flds\<close> is
      \<open>(sid, sname, close_raw, change_sym)\<close>\<close>
  "loop_body_with extract out verbose cdc fname date_tag lineno sample_count raw =
     (let line_bytes = rstrip_crlf raw;
          preview = decode_replace cdc (py_slice line_bytes 0 100)
      in
        if length line_bytes = 0 then Inr (Skipped, sample_count)
        else if length line_bytes < min_len then
          Inr (Rejected \<lparr>dbg_file = fname, dbg_line_no = lineno, reason = line_too_short,
                         line_preview = preview, dbg_close_raw = []\<rparr>, sample_count)
        else
          (case extract line_bytes of
             Inl e \<Rightarrow>
               Inr (Rejected \<lparr>dbg_file = fname, dbg_line_no = lineno, reason = slice_error e,
                              line_preview = preview, dbg_close_raw = []\<rparr>, sample_count)
           | Inr flds \<Rightarrow>
               (case (if verbose \<and> sample_count < 5
                      then print_all out (sample_messages cdc lineno line_bytes flds)
                      else None) of
                  Some e \<Rightarrow> Inl e
                | None \<Rightarrow>
                    let sample_count' =
                          (if verbose \<and> sample_count < 5 then sample_count + 1
                           else sample_count);
                        close_val = parse_9digit_price (fst (snd (snd flds)))
                    in (case (if verbose \<and> sample_count' \<le> 5 then out (ParsedClose close_val)
                              else None) of
                          Some e \<Rightarrow> Inl e
                        | None \<Rightarrow>
                            Inr (validate fname date_tag lineno preview flds, sample_count')))))"

definition loop_body ::
  "console \<Rightarrow> bool \<Rightarrow> codec \<Rightarrow> ustr \<Rightarrow> ustr \<Rightarrow> nat \<Rightarrow> nat \<Rightarrow> bytes \<Rightarrow> exn + outcome \<times> nat" where
  "loop_body out verbose cdc = loop_body_with (extract_fields cdc) out verbose cdc"

fun run_lines ::
  "(nat \<Rightarrow> nat \<Rightarrow> 'l \<Rightarrow> exn + outcome \<times> nat) \<Rightarrow> nat \<Rightarrow> nat \<Rightarrow> 'l list
   \<Rightarrow> quote_row list \<times> debug_row list \<Rightarrow> (quote_row list \<times> debug_row list) \<times> exn option" where
  \<comment> \<open>\<open>for lineno, line in enumerate(lines, start=lineno)\<close>, appending to the two lists;
      an exception ends the loop and keeps what was appended\<close>
  "run_lines step lineno sample_count [] acc = (acc, None)"
| "run_lines step lineno sample_count (l # ls) (rows, debug_rows) =
     (case step lineno sample_count l of
        Inl e \<Rightarrow> ((rows, debug_rows), Some e)
      | Inr (Skipped, sc) \<Rightarrow> run_lines step (Suc lineno) sc ls (rows, debug_rows)
      | Inr (Rejected d, sc) \<Rightarrow> run_lines step (Suc lineno) sc ls (rows, debug_rows @ [d])
      | Inr (Accepted r, sc) \<Rightarrow> run_lines step (Suc lineno) sc ls (rows @ [r], debug_rows))"

definition handle_file_error ::
  "ustr \<Rightarrow> (quote_row list \<times> debug_row list) \<times> exn option
   \<Rightarrow> quote_row list \<times> debug_row list" where
  \<comment> \<open>\<open>except Exception as e\<close> around the read and the loop\<close>
  "handle_file_error fname r =
     (case r of
        ((rows, debug_rows), None) \<Rightarrow> (rows, debug_rows)
      | ((rows, debug_rows), Some e) \<Rightarrow> (rows, debug_rows @ [file_error_row fname e]))"

definition process_file ::
  "console \<Rightarrow> bool \<Rightarrow> codec \<Rightarrow> ustr \<Rightarrow> exn + bytes list \<Rightarrow> ustr \<Rightarrow> quote_row list
   \<Rightarrow> debug_row list \<Rightarrow> exn + quote_row list \<times> debug_row list" where
  \<comment> \<open>\<open>fname\<close> is \<open>path.name\<close>; the contents are what \<open>readlines()\<close> on the file opened in
      binary mode gives: an exception or the lines with their endings. The result is the
      exception that leaves the function, or the two lists as it leaves them\<close>
  "process_file out verbose cdc fname contents date_tag rows debug_rows =
     (case (if verbose then print_all out [Rule, Processing fname, DateTag date_tag]
            else None) of
        Some e \<Rightarrow> Inl e
      | None \<Rightarrow>
          Inr (handle_file_error fname
            (case contents of
               Inl e \<Rightarrow> ((rows, debug_rows), Some e)
             | Inr lines_bytes \<Rightarrow>
                 (case (if verbose then out (TotalLines (length lines_bytes)) else None) of
                    Some e \<Rightarrow> ((rows, debug_rows), Some e)
                  | None \<Rightarrow>
                      run_lines (loop_body out verbose cdc fname date_tag) 2 0
                        (drop 1 lines_bytes) (rows, debug_rows)))))"

text \<open>
  \<open>extract_quotes_diagnostic.py\<close> reads the file in text mode, so its lines are decoded
  text and its offsets count characters.
\<close>

definition POS :: "field \<Rightarrow> nat \<times> nat" where
  "POS = BYTE_POS"

definition extract_fields_diag :: "ustr \<Rightarrow> exn + (ustr \<times> ustr \<times> ustr \<times> ustr)" where
  "extract_fields_diag line =
     (let sid = py_strip (py_slice line (fst (POS stock_id_f)) (snd (POS stock_id_f)));
          sname = py_strip (py_slice line (fst (POS stock_name_f)) (snd (POS stock_name_f)));
          close_raw = py_slice line (fst (POS close_price_raw_f)) (snd (POS close_price_raw_f));
          change_sym = py_slice line (fst (POS change_flag_f)) (snd (POS change_flag_f))
      in Inr (sid, sname, close_raw, change_sym))"

definition process_line_diag_with ::
  "(ustr \<Rightarrow> exn + (ustr \<times> ustr \<times> ustr \<times> ustr)) \<Rightarrow> ustr \<Rightarrow> ustr \<Rightarrow> nat \<Rightarrow> ustr \<Rightarrow> outcome" where
  "process_line_diag_with extract fname date_tag lineno raw =
     (let line = rstrip_crlf_str raw;
          preview = py_slice raw 0 200
      in
        if py_strip line = [] then Skipped
        else if length line < snd (POS change_flag_f) then
          Rejected \<lparr>dbg_file = fname, dbg_line_no = lineno, reason = padded_short_line,
                    line_preview = preview, dbg_close_raw = []\<rparr>
        else
          (case extract line of
             Inl e \<Rightarrow>
               Rejected \<lparr>dbg_file = fname, dbg_line_no = lineno, reason = slice_error e,
                         line_preview = preview, dbg_close_raw = []\<rparr>
           | Inr flds \<Rightarrow> validate fname date_tag lineno preview flds))"

definition process_line_diag :: "ustr \<Rightarrow> ustr \<Rightarrow> nat \<Rightarrow> ustr \<Rightarrow> outcome" where
  "process_line_diag = process_line_diag_with extract_fields_diag"







definition message_text :: "message \<Rightarrow> ustr" where
  \<comment> \<open>the text a print formats into its line\<close>
  "message_text m =
     (case m of
        Processing s \<Rightarrow> s | DateTag s \<Rightarrow> s | LinePreview i n s \<Rightarrow> s | SampleLine n s \<Rightarrow> s
      | DecodedLine s \<Rightarrow> s | LineText s \<Rightarrow> s | FieldText f s \<Rightarrow> s | _ \<Rightarrow> [])"


definition narrow_console :: console where
  \<comment> \<open>a console that cannot encode U+FFFD, as one with the legacy encoding\<close>
  "narrow_console m =
     (if REPLACEMENT \<in> set (message_text m) then Some ''UnicodeEncodeError'' else None)"

text \<open>The lines that count as data in each program.\<close>

definition data_lines :: "bytes list \<Rightarrow> bytes list" where
  "data_lines lines_bytes = filter (\<lambda>l. rstrip_crlf l \<noteq> []) (drop 1 lines_bytes)"


section \<open>Sample records\<close>

text \<open>
  Lines of 59 bytes in the base layout and two small files, on which the definitions are
  run: identifier 001240, name, open, high and low price, then the closing price and the
  change flag.
\<close>

definition line_ok :: bytes where
  "line_ok = ''001240TSMC            000390000000400000000385000000398000+''"
definition line_low :: bytes where
  "line_low = ''001240TSMC            000390000000400000000385000000000050-''"




definition line_bad_name :: bytes where
  "line_bad_name =
     ''001240TS'' @ [CHR 0xFF] @ ''C            000390000000400000000385000000398000+''"

definition bad_name_file :: "bytes list" where
  "bad_name_file = [''20200420 header'' @ [CR, LF], line_bad_name @ [CR, LF], line_ok @ [CR, LF]]"

section \<open>Decoding in replace mode\<close>

lemma py_decode_replace_total: "\<exists>s. py_decode cdc Replace bs = Inr s"
proof (induction bs rule: length_induct)
  case (1 bs)
  show ?case
  proof (cases bs)
    case Nil
    then show ?thesis by simp
  next
    case (Cons b rest)
    show ?thesis
    proof (cases "cdc (b # rest)")
      case None
      from 1 Cons obtain s where "py_decode cdc Replace rest = Inr s" by auto
      with None Cons show ?thesis by simp
    next
      case (Some p)
      obtain c n where p: "p = (c, n)" by (cases p)
      have "length (drop (n - 1) rest) < length bs" using Cons by simp
      with 1 obtain s where "py_decode cdc Replace (drop (n - 1) rest) = Inr s" by blast
      with Some p Cons show ?thesis by simp
    qed
  qed
qed

lemma py_decode_replace: "py_decode cdc Replace bs = Inr (decode_replace cdc bs)"
  using py_decode_replace_total [of cdc bs] by (auto simp: decode_replace_def)

lemma decode_replace_Nil [simp]: "decode_replace cdc [] = []"
  by (simp add: decode_replace_def)

lemma decode_replace_Cons [simp]:
  "decode_replace cdc (b # bs) =
     (case cdc (b # bs) of
        Some (c, n) \<Rightarrow> c # decode_replace cdc (drop (n - 1) bs)
      | None \<Rightarrow> REPLACEMENT # decode_replace cdc bs)"
proof -
  have "decode_replace cdc (b # bs) =
        (case py_decode cdc Replace (b # bs) of Inr s \<Rightarrow> s | Inl e \<Rightarrow> [])"
    by (rule decode_replace_def)
  then show ?thesis
    by (cases "cdc (b # bs)") (auto simp: py_decode_replace)
qed

lemma decode_replace_length: "length (decode_replace cdc bs) \<le> length bs"
proof (induction bs rule: length_induct)
  case (1 bs)
  show ?case
  proof (cases bs)
    case Nil
    then show ?thesis by simp
  next
    case (Cons b rest)
    show ?thesis
    proof (cases "cdc (b # rest)")
      case None
      from 1 Cons have "length (decode_replace cdc rest) \<le> length rest" by simp
      with None Cons show ?thesis by simp
    next
      case (Some p)
      obtain c n where p: "p = (c, n)" by (cases p)
      have "length (drop (n - 1) rest) < length bs" using Cons by simp
      with 1 have "length (decode_replace cdc (drop (n - 1) rest)) \<le> length (drop (n - 1) rest)"
        by blast
      with Some p Cons show ?thesis by simp
    qed
  qed
qed

lemma strict_agrees: "py_decode cdc Strict bs = Inr t \<Longrightarrow> decode_replace cdc bs = t"
proof (induction bs arbitrary: t rule: length_induct)
  case (1 bs)
  show ?case
  proof (cases bs)
    case Nil
    with 1(2) show ?thesis by simp
  next
    case (Cons b rest)
    show ?thesis
    proof (cases "cdc (b # rest)")
      case None
      with 1(2) Cons show ?thesis by simp
    next
      case (Some p)
      obtain c n where p: "p = (c, n)" by (cases p)
      from 1(2) Some p Cons obtain u where u: "py_decode cdc Strict (drop (n - 1) rest) = Inr u"
        and t: "t = c # u"
        by (auto split: sum.splits)
      have "length (drop (n - 1) rest) < length bs" using Cons by simp
      with 1(1) u have "decode_replace cdc (drop (n - 1) rest) = u" by blast
      with Some p Cons t show ?thesis by simp
    qed
  qed
qed

lemma strict_fails_placeholder:
  "py_decode cdc Strict bs = Inl e \<Longrightarrow> REPLACEMENT \<in> set (decode_replace cdc bs)"
proof (induction bs rule: length_induct)
  case (1 bs)
  show ?case
  proof (cases bs)
    case Nil
    with 1(2) show ?thesis by simp
  next
    case (Cons b rest)
    show ?thesis
    proof (cases "cdc (b # rest)")
      case None
      with Cons show ?thesis by simp
    next
      case (Some p)
      obtain c n where p: "p = (c, n)" by (cases p)
      from 1(2) Some p Cons have u: "py_decode cdc Strict (drop (n - 1) rest) = Inl e"
        by (auto split: sum.splits)
      have "length (drop (n - 1) rest) < length bs" using Cons by simp
      with 1(1) u have "REPLACEMENT \<in> set (decode_replace cdc (drop (n - 1) rest))" by blast
      with Some p Cons show ?thesis by simp
    qed
  qed
qed

lemma cp950_ascii:
  "\<forall>b \<in> set bs. (of_char b :: nat) < 128 \<Longrightarrow> decode_replace (cp950_step tbl) bs = map of_char bs"
  by (induction bs) (simp_all add: cp950_step_def)

section \<open>Digit strings and their values\<close>

lemma digits_value_snoc: "digits_value (s @ [c]) = 10 * digits_value s + (c - 48)"
  by (simp add: digits_value_def)

lemma digits_value_append:
  "digits_value (a @ b) = digits_value a * 10 ^ length b + digits_value b"
proof (induction b rule: rev_induct)
  case Nil
  show ?case by (simp add: digits_value_def)
next
  case (snoc c b)
  have "digits_value (a @ b @ [c]) = 10 * digits_value (a @ b) + (c - 48)"
    using digits_value_snoc [of "a @ b" c] by simp
  also have "\<dots> = 10 * (digits_value a * 10 ^ length b + digits_value b) + (c - 48)"
    by (simp add: snoc.IH)
  also have "\<dots> = digits_value a * 10 ^ length (b @ [c]) + digits_value (b @ [c])"
    by (simp add: digits_value_snoc algebra_simps)
  finally show ?case .
qed

lemma digits_value_zeros: "digits_value (replicate k 48) = 0"
  by (induction k) (simp_all add: digits_value_def)

lemma digits_value_bound:
  "list_all is_digit s \<Longrightarrow> digits_value s < 10 ^ length s"
proof (induction s rule: rev_induct)
  case Nil
  show ?case by (simp add: digits_value_def)
next
  case (snoc c s)
  then have "digits_value s < 10 ^ length s" and "c - 48 \<le> 9"
    by (auto simp: is_digit_def)
  then show ?case
    by (simp add: digits_value_snoc)
qed

lemma str_nat_digit: "n < 10 \<Longrightarrow> str_nat n = [48 + n]"
  by (simp add: str_nat.simps)

lemma str_nat_step: "10 \<le> n \<Longrightarrow> str_nat n = str_nat (n div 10) @ [48 + n mod 10]"
  by (subst str_nat.simps) simp

lemma str_nat_length: "n < 10 ^ k \<Longrightarrow> 0 < k \<Longrightarrow> length (str_nat n) \<le> k"
proof (induction n arbitrary: k rule: str_nat.induct)
  case (1 n)
  show ?case
  proof (cases "n < 10")
    case True
    with 1 show ?thesis by (simp add: str_nat_digit Suc_leI)
  next
    case False
    then obtain j where k: "k = Suc j" using 1(3) by (cases k) auto
    from False 1(2) k have "0 < j" by (cases j) auto
    from 1(2) k have "n div 10 < 10 ^ j" by (simp add: less_mult_imp_div_less mult.commute)
    with 1(1) False \<open>0 < j\<close> have "length (str_nat (n div 10)) \<le> j" by simp
    with False k show ?thesis by (simp add: str_nat_step)
  qed
qed

lemma str_nat_nonempty: "str_nat n \<noteq> []"
  by (subst str_nat.simps) simp

lemma str_nat_no_sign: "hd (str_nat n) \<noteq> 43 \<and> hd (str_nat n) \<noteq> 45 \<and> list_all is_digit (str_nat n)"
proof (induction n rule: str_nat.induct)
  case (1 n)
  show ?case
  proof (cases "n < 10")
    case True
    then show ?thesis by (simp add: str_nat_digit is_digit_def)
  next
    case False
    with 1 have ih: "hd (str_nat (n div 10)) \<noteq> 43 \<and> hd (str_nat (n div 10)) \<noteq> 45 \<and> list_all is_digit (str_nat (n div 10))"
      by simp
    have "n mod 10 < 10" by simp
    then have "is_digit (48 + n mod 10)" unfolding is_digit_def by linarith
    with ih False show ?thesis
      by (simp add: str_nat_step str_nat_nonempty)
  qed
qed


lemma zfill_str_nat:
  "zfill w (str_nat n) = replicate (w - length (str_nat n)) 48 @ str_nat n"
proof (cases "str_nat n")
  case Nil
  then show ?thesis using str_nat_nonempty by simp
next
  case (Cons c cs)
  with str_nat_no_sign [of n] have "c \<noteq> 43" "c \<noteq> 45" by auto
  with Cons show ?thesis by (simp add: zfill_def)
qed

lemma str_nat_times10:
  "d < 10 \<Longrightarrow> str_nat (10 * v + d) = (if v = 0 then [48 + d] else str_nat v @ [48 + d])"
proof (cases "v = 0")
  case True
  assume "d < 10"
  with True show ?thesis by (simp add: str_nat_digit)
next
  case False
  assume d: "d < 10"
  from False have "10 \<le> 10 * v + d" by simp
  then have "str_nat (10 * v + d) = str_nat ((10 * v + d) div 10) @ [48 + (10 * v + d) mod 10]"
    by (rule str_nat_step)
  with d False show ?thesis by simp
qed

lemma pad_str_nat_digits_value:
  "list_all is_digit s \<Longrightarrow> s \<noteq> [] \<Longrightarrow>
   length (str_nat (digits_value s)) \<le> length s \<and>
   replicate (length s - length (str_nat (digits_value s))) 48 @ str_nat (digits_value s) = s"
proof (induction s rule: rev_induct)
  case Nil
  then show ?case by simp
next
  case (snoc c t)
  from snoc.prems have c: "is_digit c" and t: "list_all is_digit t" by simp_all
  define d where "d = c - 48"
  from c have d: "d < 10" and cd: "c = 48 + d" by (auto simp: is_digit_def d_def)
  have val: "digits_value (t @ [c]) = 10 * digits_value t + d"
    by (simp add: digits_value_snoc d_def)
  show ?case
  proof (cases "t = []")
    case True
    then show ?thesis using d cd by (simp add: digits_value_def str_nat_digit)
  next
    case False
    with snoc.IH t have len: "length (str_nat (digits_value t)) \<le> length t"
      and pad: "replicate (length t - length (str_nat (digits_value t))) 48 @ str_nat (digits_value t) = t"
      by simp_all
    show ?thesis
    proof (cases "digits_value t = 0")
      case True
      with pad have "t = replicate (length t - 1) 48 @ [48]"
        by (simp add: str_nat_digit)
      then have "t = replicate (length t) 48"
        using False by (metis (no_types) One_nat_def Suc_pred length_greater_0_conv replicate_Suc replicate_append_same)
      then have "replicate (length t) 48 @ [c] = t @ [c]" by simp
      with True d cd val show ?thesis by (simp add: str_nat_digit)
    next
      case nz: False
      with d val have "str_nat (digits_value (t @ [c])) = str_nat (digits_value t) @ [c]"
        by (simp add: str_nat_times10 cd)
      with len pad show ?thesis by (simp add: Suc_diff_le)
    qed
  qed
qed

lemma zfill_str_nat_digits_value:
  "list_all is_digit s \<Longrightarrow> s \<noteq> [] \<Longrightarrow> zfill (length s) (str_nat (digits_value s)) = s"
  by (simp add: zfill_str_nat pad_str_nat_digits_value)

lemma round_half_even_of_nat: "round_half_even (of_nat k) = int k"
  by (simp add: round_half_even_def)

lemma py_round_exact:
  "py_round (of_nat w + of_nat f / 10000) 4 = of_nat (w * 10000 + f) / 10000"
proof -
  have "(of_nat w + of_nat f / 10000) * 10 ^ 4 = (of_nat (w * 10000 + f) :: rat)"
    by (simp add: field_simps)
  then have "py_round (of_nat w + of_nat f / 10000) 4 =
             of_int (round_half_even (of_nat (w * 10000 + f))) / 10 ^ 4"
    by (simp only: py_round_def)
  then show ?thesis
    by (simp only: round_half_even_of_nat) simp
qed

lemma normalise_digits:
  assumes "ds \<noteq> []" and "list_all is_digit ds"
  defines "nd \<equiv> (if length ds < 9 then zfill 9 ds else py_suffix 9 ds)"
  shows "length nd = 9" and "list_all is_digit nd"
    and "digits_value nd = digits_value (py_suffix 9 ds)"
proof -
  from assms(1) obtain c cs where ds: "ds = c # cs" by (cases ds) auto
  with assms(2) have nosign: "c \<noteq> 43" "c \<noteq> 45" by (auto simp: is_digit_def)
  have z: "length ds < 9 \<Longrightarrow> zfill 9 ds = replicate (9 - length ds) 48 @ ds"
    using ds nosign by (simp add: zfill_def)
  show "length nd = 9"
    using z by (auto simp: nd_def py_suffix_def)
  show "list_all is_digit nd"
    using z assms(2) by (auto simp: nd_def py_suffix_def list_all_iff is_digit_def dest: in_set_dropD)
  show "digits_value nd = digits_value (py_suffix 9 ds)"
    using z by (auto simp: nd_def py_suffix_def digits_value_append digits_value_zeros)
qed

lemma split_value:
  assumes "length nd = 9" and "list_all is_digit nd"
  shows "py_int (py_drop_suffix 4 nd) = Some (digits_value (take 5 nd))"
    and "py_int (py_suffix 4 nd) = Some (digits_value (drop 5 nd))"
    and "digits_value (take 5 nd) * 10000 + digits_value (drop 5 nd) = digits_value nd"
    and "digits_value (take 5 nd) \<le> 99999" and "digits_value (drop 5 nd) < 10000"
proof -
  have t: "list_all is_digit (take 5 nd)" and d: "list_all is_digit (drop 5 nd)"
    using assms(2) by (auto simp: list_all_iff dest: in_set_takeD in_set_dropD)
  have lt: "length (take 5 nd) = 5" and ld: "length (drop 5 nd) = 4"
    using assms(1) by simp_all
  from lt have tn: "take 5 nd \<noteq> []" by (metis length_0_conv zero_neq_numeral)
  from ld have dn: "drop 5 nd \<noteq> []" by (metis length_0_conv zero_neq_numeral)
  show "py_int (py_drop_suffix 4 nd) = Some (digits_value (take 5 nd))"
    using t tn assms(1) by (simp add: py_int_def py_drop_suffix_def)
  show "py_int (py_suffix 4 nd) = Some (digits_value (drop 5 nd))"
    using d dn assms(1) by (simp add: py_int_def py_suffix_def)
  have "digits_value (take 5 nd @ drop 5 nd) =
        digits_value (take 5 nd) * 10 ^ length (drop 5 nd) + digits_value (drop 5 nd)"
    by (rule digits_value_append)
  moreover have "(10::nat) ^ length (drop 5 nd) = 10000"
    by (simp only: ld) simp
  ultimately show "digits_value (take 5 nd) * 10000 + digits_value (drop 5 nd) = digits_value nd"
    by (simp only: append_take_drop_id)
  from digits_value_bound [OF t] lt show "digits_value (take 5 nd) \<le> 99999" by simp
  from digits_value_bound [OF d] ld show "digits_value (drop 5 nd) < 10000" by simp
qed

lemma parse_9digit_price_eq:
  assumes "filter is_digit s \<noteq> []"
  shows "parse_9digit_price s =
         Some (of_nat (digits_value (py_suffix 9 (filter is_digit s))) / 10000)"
proof -
  define ds where "ds = filter is_digit s"
  define nd where "nd = (if length ds < 9 then zfill 9 ds else py_suffix 9 ds)"
  have ds: "ds \<noteq> []" "list_all is_digit ds"
    using assms by (simp_all add: ds_def list_all_iff)
  from normalise_digits [OF ds] have nd: "length nd = 9" "list_all is_digit nd"
    "digits_value nd = digits_value (py_suffix 9 ds)"
    by (simp_all add: nd_def)
  from assms have s: "s \<noteq> []" by auto
  have "parse_9digit_price s =
        Some (py_round (of_nat (digits_value (take 5 nd)) + of_nat (digits_value (drop 5 nd)) / 10000) 4)"
    using s ds(1) split_value(1,2) [OF nd(1,2)]
    by (simp add: parse_9digit_price_def Let_def ds_def [symmetric] nd_def [symmetric])
  also have "\<dots> = Some (of_nat (digits_value nd) / 10000)"
    by (simp only: py_round_exact split_value(3) [OF nd(1,2)])
  finally show ?thesis by (simp add: nd(3) ds_def)
qed

lemma parse_9digit_price_none:
  "filter is_digit s = [] \<Longrightarrow> parse_9digit_price s = None"
  by (simp add: parse_9digit_price_def)

lemma parse_9digit_price_diag_eq: "parse_9digit_price_diag s = parse_9digit_price s"
  by (cases "s = []") (simp_all add: parse_9digit_price_diag_def parse_9digit_price_def)

section \<open>The decoder's range and the line processor's branches\<close>

lemma parse_9digit_price_range:
  assumes "parse_9digit_price s = Some v"
  shows "\<exists>k. k \<le> 999999999 \<and> v = of_nat k / 10000"
proof -
  from assms have ne: "filter is_digit s \<noteq> []"
    by (auto simp: parse_9digit_price_def split: if_splits)
  define t where "t = py_suffix 9 (filter is_digit s)"
  have "set t \<subseteq> set (filter is_digit s)"
    unfolding t_def py_suffix_def by (rule set_drop_subset)
  then have d: "list_all is_digit t" by (auto simp: list_all_iff)
  have "length t \<le> 9" by (simp add: t_def py_suffix_def)
  then have "(10::nat) ^ length t \<le> 10 ^ 9" by (simp only: power_increasing)
  with digits_value_bound [OF d] have "digits_value t < 10 ^ 9" by linarith
  then have "digits_value t \<le> 999999999" by simp
  moreover from parse_9digit_price_eq [OF ne] assms have "v = of_nat (digits_value t) / 10000"
    by (simp add: t_def)
  ultimately show ?thesis by blast
qed

lemma extract_fields_eq:
  "extract_fields cdc l =
     Inr (slice_bytes cdc l 0 6, slice_bytes cdc l 6 22, slice_bytes cdc l 49 58,
          decode_replace cdc (py_slice l 58 59))"
  by (simp add: extract_fields_def py_decode_replace)

lemma process_line_long:
  assumes "rstrip_crlf raw = l" and "min_len \<le> length l"
  shows "process_line cdc fname date_tag lineno raw =
         validate fname date_tag lineno (decode_replace cdc (py_slice l 0 100))
           (slice_bytes cdc l 0 6, slice_bytes cdc l 6 22, slice_bytes cdc l 49 58,
            decode_replace cdc (py_slice l 58 59))"
proof -
  from assms(2) have "l \<noteq> []" by (auto simp: min_len_def)
  with assms show ?thesis
    by (simp add: process_line_def process_line_with_def extract_fields_eq Let_def)
qed

lemma validate_out_of_bounds:
  assumes "validate fname date_tag lineno preview (sid, sname, close_raw, change_sym) = Rejected d"
    and "reason d = close_out_of_bounds x"
  shows "parse_9digit_price close_raw = Some x \<and> \<not> sane_price (Some x)"
  using assms
  by (auto simp: validate_def Let_def split: if_splits option.splits)

lemma process_line_out_of_bounds:
  assumes "process_line cdc fname date_tag lineno raw = Rejected d"
    and "reason d = close_out_of_bounds x"
  shows "\<exists>s. parse_9digit_price s = Some x \<and> \<not> sane_price (Some x)"
proof -
  define l where "l = rstrip_crlf raw"
  show ?thesis
  proof (cases "min_len \<le> length l")
    case True
    from process_line_long [OF l_def [symmetric] True] assms(1)
    have "validate fname date_tag lineno (decode_replace cdc (py_slice l 0 100))
           (slice_bytes cdc l 0 6, slice_bytes cdc l 6 22, slice_bytes cdc l 49 58,
            decode_replace cdc (py_slice l 58 59)) = Rejected d"
      by simp
    from validate_out_of_bounds [OF this assms(2)] show ?thesis by blast
  next
    case False
    with assms show ?thesis
      by (auto simp: process_line_def process_line_with_def Let_def l_def [symmetric]
               split: if_splits)
  qed
qed

lemma sane_price_iff: "sane_price (Some x) \<longleftrightarrow> MIN_PRICE \<le> x \<and> x \<le> MAX_PRICE"
  by (simp add: sane_price_def)

lemma min_len_59: "min_len = 59"
  by (simp add: min_len_def)

lemmas line_eval =
  rstrip_crlf_def CR_def LF_def min_len_59 slice_bytes_def py_decode_replace py_slice_def
  ascii_codec_def Let_def py_strip_def py_isspace_def is_digit_def ascii_def REPLACEMENT_def
  upt_rec

section \<open>Slices and replace-mode decoding\<close>

lemma py_slice_upt: "py_slice xs start stop = map (\<lambda>i. xs ! i) [start ..< min stop (length xs)]"
  by (auto simp: py_slice_def Let_def min_def)

lemma py_slice_take_drop: "py_slice xs start stop = take (stop - start) (drop start xs)"
proof -
  have "take (stop - start) (drop start xs) =
        map (\<lambda>i. xs ! i) [start ..< min stop (length xs)]"
    by (rule nth_equalityI) (auto simp: min_def nth_map_upt split: if_splits)
  then show ?thesis by (simp add: py_slice_upt)
qed

lemma py_slice_past_end: "length xs \<le> start \<Longrightarrow> py_slice xs start stop = []"
  by (simp add: py_slice_take_drop)

section \<open>The loop over the lines\<close>










section \<open>The patterns of the date resolver\<close>

lemma search_d8_date8: "search_d8 isd s = Some d \<Longrightarrow> date8 isd d"
  by (induction s) (auto simp: date8_def split: if_splits)

lemma search_d8_infix: "search_d8 isd s = Some d \<Longrightarrow> \<exists>pre post. s = pre @ d @ post"
proof (induction s)
  case Nil
  then show ?case by simp
next
  case (Cons c cs)
  show ?case
  proof (cases "8 \<le> length (c # cs) \<and> list_all isd (take 8 (c # cs))")
    case True
    with Cons.prems have "d = take 8 (c # cs)" by simp
    then have "c # cs = [] @ d @ drop 8 (c # cs)" by simp
    then show ?thesis by blast
  next
    case False
    with Cons.prems have "search_d8 isd cs = Some d" by (simp split: if_splits)
    with Cons.IH obtain pre post where "cs = pre @ d @ post" by blast
    then have "c # cs = (c # pre) @ d @ post" by simp
    then show ?thesis by blast
  qed
qed

lemma scan_header_date8: "scan_header isd k lines = Some d \<Longrightarrow> date8 isd d"
  by (induction isd k lines rule: scan_header.induct)
     (auto split: if_splits option.splits dest: search_d8_date8)

lemma scan_header_source:
  "scan_header isd k lines = Some d \<Longrightarrow> \<exists>l \<in> set (take k lines). \<exists>pre post. l = pre @ d @ post"
proof (induction isd k lines rule: scan_header.induct)
  case (3 isd k line rest)
  show ?case
  proof (cases "search_d8 isd line")
    case None
    with 3 show ?thesis by (auto split: if_splits)
  next
    case (Some a)
    with 3(2) have "a = d" by (simp split: if_splits)
    with Some search_d8_infix [of isd line d] show ?thesis by auto
  qed
qed simp_all

lemma scan_header_ml_date8: "scan_header_ml isd valid k lines = Some d \<Longrightarrow> date8 isd d"
  by (induction isd valid k lines rule: scan_header_ml.induct)
     (auto split: if_splits option.splits dest: search_d8_date8)

lemma find_SomeD: "find P xs = Some x \<Longrightarrow> P x \<and> x \<in> set xs"
  by (induction xs) (auto split: if_splits)

lemma match_tag_here_props:
  assumes "match_tag_here isd s = Some t"
  shows "3 \<le> length t \<and> length t \<le> 8 \<and> list_all isd t"
proof -
  from assms obtain c rest k where s: "s = c # rest"
    and f: "find (\<lambda>k. k < length rest \<and> list_all isd (take k rest) \<and> rest ! k = 41)
              [8, 7, 6, 5, 4, 3] = Some k"
    and t: "t = take k rest"
    by (auto simp: match_tag_here_def split: list.splits if_splits option.splits)
  from find_SomeD [OF f]
  have "k \<in> set [8, 7, 6, 5, 4, 3::nat]" and "k < length rest" and "list_all isd (take k rest)"
    by blast+
  then show ?thesis by (auto simp: t)
qed

lemma search_tag_props:
  "search_tag isd s = Some t \<Longrightarrow> 3 \<le> length t \<and> length t \<le> 8 \<and> list_all isd t"
proof (induction s)
  case Nil
  then show ?case by simp
next
  case (Cons c cs)
  show ?case
  proof (cases "match_tag_here isd (c # cs)")
    case None
    with Cons show ?thesis by simp
  next
    case (Some a)
    with Cons.prems have "a = t" by simp
    with Some match_tag_here_props show ?thesis by blast
  qed
qed

lemma zfill_props:
  assumes "list_all isd m" and "isd 48"
  shows "length (zfill w m) = max w (length m) \<and> list_all isd (zfill w m)"
  using assms
  by (cases m) (auto simp: zfill_def list_all_iff max_def)

lemma ascii_digits: "\<forall>c. is_digit c \<longrightarrow> isd c \<Longrightarrow> list_all isd (ascii ''0101'') \<and> list_all isd (ascii ''19700101'') \<and> isd 48"
  by (simp add: ascii_def is_digit_def)

lemma checked_hint_ok:
  "year_hint_ok isd year_hint \<Longrightarrow> checked_hint isd year_hint = year_hint"
  by (cases year_hint) (auto simp: year_hint_ok_def checked_hint_def match_year_def)

lemma truthy_hint_ok:
  "year_hint_ok isd year_hint \<Longrightarrow> truthy_hint year_hint = year_hint"
  by (cases year_hint) (auto simp: year_hint_ok_def truthy_hint_def)

lemma filename_rule_ok:
  "year_hint_ok isd year_hint \<Longrightarrow>
   filename_rule isd name year_hint =
     (case search_tag isd name of
        None \<Rightarrow> None
      | Some m \<Rightarrow>
          (case (if length (zfill 4 m) = 4 then year_hint else None) of
             Some y \<Rightarrow> Some (y @ zfill 4 m)
           | None \<Rightarrow> if length (zfill 4 m) = 8 then Some (zfill 4 m) else None))"
  by (cases "search_tag isd name") (simp_all add: filename_rule_def Let_def checked_hint_ok)

lemma filename_rule_ml_ok:
  "year_hint_ok isd year_hint \<Longrightarrow>
   filename_rule_ml isd valid name year_hint =
     (case search_tag isd name of
        None \<Rightarrow> None
      | Some m \<Rightarrow>
          (case (if length (zfill 4 m) = 4 then year_hint else None) of
             Some y \<Rightarrow> if valid (y @ zfill 4 m) then Some (y @ zfill 4 m) else None
           | None \<Rightarrow> if length (zfill 4 m) = 8 \<and> valid (zfill 4 m) then Some (zfill 4 m) else None))"
  by (cases "search_tag isd name"; cases year_hint)
     (simp_all add: filename_rule_ml_def Let_def truthy_hint_ok)

lemma tag_candidate_date8:
  assumes "\<forall>c. is_digit c \<longrightarrow> isd c" and "year_hint_ok isd year_hint"
    and "search_tag isd name = Some m"
  shows "(length (zfill 4 m) = 4 \<and> year_hint = Some y \<longrightarrow> date8 isd (y @ zfill 4 m))
       \<and> (length (zfill 4 m) = 8 \<longrightarrow> date8 isd (zfill 4 m))"
proof -
  from search_tag_props [OF assms(3)] have dm: "list_all isd m" by simp
  from ascii_digits [OF assms(1)] have z: "isd 48" by simp
  from zfill_props [OF dm z, of 4] have t: "list_all isd (zfill 4 m)" by simp
  with assms(2) show ?thesis by (auto simp: date8_def year_hint_ok_def)
qed

lemma filename_rule_date8:
  assumes "\<forall>c. is_digit c \<longrightarrow> isd c" and "year_hint_ok isd year_hint"
    and "filename_rule isd name year_hint = Some d"
  shows "date8 isd d"
proof -
  from assms(3) obtain m where m: "search_tag isd name = Some m"
    by (auto simp: filename_rule_def split: option.splits)
  from assms(3) m tag_candidate_date8 [OF assms(1,2) m] show ?thesis
    by (auto simp: filename_rule_ok [OF assms(2)] split: option.splits if_splits)
qed

lemma filename_rule_ml_date8:
  assumes "\<forall>c. is_digit c \<longrightarrow> isd c" and "year_hint_ok isd year_hint"
    and "filename_rule_ml isd valid name year_hint = Some d"
  shows "date8 isd d"
proof -
  from assms(3) obtain m where m: "search_tag isd name = Some m"
    by (auto simp: filename_rule_ml_def split: option.splits)
  from assms(3) m tag_candidate_date8 [OF assms(1,2) m] show ?thesis
    by (auto simp: filename_rule_ml_ok [OF assms(2)] split: option.splits if_splits)
qed

lemma default_date8:
  assumes "\<forall>c. is_digit c \<longrightarrow> isd c" and "year_hint_ok isd year_hint"
  shows "date8 isd (case year_hint of Some y \<Rightarrow> y @ ascii ''0101'' | None \<Rightarrow> ascii ''19700101'')"
  using assms(2) ascii_digits [OF assms(1)]
  by (cases year_hint) (auto simp: year_hint_ok_def date8_def ascii_def)

lemma scan_header_closed:
  "scan_header isd k lines =
     (case List.map_filter (search_d8 isd) (takeWhile (\<lambda>l. l \<noteq> []) (take k lines)) of
        [] \<Rightarrow> None
      | d # _ \<Rightarrow> Some d)"
  by (induction isd k lines rule: scan_header.induct)
     (simp_all add: List.map_filter_simps split: option.splits)

lemma scan_header_ml_closed:
  "scan_header_ml isd valid k lines =
     find valid (List.map_filter (search_d8 isd) (takeWhile (\<lambda>l. l \<noteq> []) (take k lines)))"
  by (induction isd valid k lines rule: scan_header_ml.induct)
     (simp_all add: List.map_filter_simps split: option.splits)

lemma header_rule_closed:
  "(case header of Inl e \<Rightarrow> None | Inr lines \<Rightarrow> scan_header isd 3 lines) =
     (case header_candidates isd header of [] \<Rightarrow> None | d # _ \<Rightarrow> Some d)"
  by (cases header) (simp_all add: header_candidates_def scan_header_closed)

lemma header_rule_ml_closed:
  "(case header of Inl e \<Rightarrow> None | Inr lines \<Rightarrow> scan_header_ml isd valid 3 lines) =
     find valid (header_candidates isd header)"
  by (cases header) (simp_all add: header_candidates_def scan_header_ml_closed)

lemma filename_rule_ml_closed:
  assumes "\<forall>c. is_digit c \<longrightarrow> isd c" and "year_hint_ok isd year_hint"
  shows "filename_rule_ml isd valid name year_hint =
           (case search_tag isd name of
              None \<Rightarrow> None
            | Some m \<Rightarrow>
                (case (if length m \<le> 4 then year_hint else None) of
                   Some y \<Rightarrow> if valid (y @ zfill 4 m) then Some (y @ zfill 4 m) else None
                 | None \<Rightarrow> if length m = 8 \<and> valid m then Some m else None))"
proof (cases "search_tag isd name")
  case None
  then show ?thesis by (simp add: filename_rule_ml_def)
next
  case (Some m)
  from ascii_digits [OF assms(1)] have z: "isd 48" by simp
  from search_tag_props [OF Some] have m: "3 \<le> length m" "list_all isd m" by simp_all
  from zfill_props [OF m(2) z, of 4] have l: "length (zfill 4 m) = max 4 (length m)" by simp
  have e: "length m = 8 \<Longrightarrow> zfill 4 m = m" by (simp add: zfill_def)
  from Some l e show ?thesis
    by (auto simp: filename_rule_ml_ok [OF assms(2)] max_def split: option.splits if_splits)
qed

lemma filename_rule_ml_valid:
  "filename_rule_ml isd valid name year_hint = Some d \<Longrightarrow> valid d"
  by (auto simp: filename_rule_ml_def Let_def split: option.splits if_splits)

lemmas date_eval =
  derive_date_for_file_def derive_date_for_file_ml_def numeral_3_eq_3 filename_rule_def
  filename_rule_ml_def match_tag_here_def checked_hint_def truthy_hint_def match_year_def
  zfill_def ascii_def is_digit_def Let_def

section \<open>Rounding to a double\<close>

lemma find_ulp_numeral:
  "find_ulp (numeral n) x u =
     (if x < 2 ^ 52 * u then find_ulp (pred_numeral n) x (u / 2)
      else if 2 ^ 53 * u \<le> x then find_ulp (pred_numeral n) x (2 * u)
      else u)"
  by (simp add: numeral_eq_Suc)

lemma floor_numeral_div: "\<lfloor>numeral a / numeral b :: rat\<rfloor> = numeral a div numeral b"
  using floor_divide_of_int_eq [of "numeral a" "numeral b", where ?'a = rat] by simp

lemmas double_eval = to_double_def nearest_double_def find_ulp_numeral round_half_even_def Let_def
  floor_numeral_div

lemma round_half_even_err: "\<bar>of_int (round_half_even z) - z\<bar> \<le> 1 / 2"
proof -
  have "of_int \<lfloor>z\<rfloor> \<le> z" "z < of_int \<lfloor>z\<rfloor> + 1" by linarith+
  then show ?thesis
    by (auto simp: round_half_even_def Let_def)
qed

lemma round_half_even_near:
  assumes "\<bar>z - of_int n\<bar> < 1 / 2"
  shows "round_half_even z = n"
proof -
  from round_half_even_err [of z] assms
  have "\<bar>(of_int (round_half_even z) :: rat) - of_int n\<bar> < 1" by linarith
  then have "\<bar>(of_int (round_half_even z - n) :: rat)\<bar> < of_int 1" by simp
  then have "\<bar>round_half_even z - n\<bar> < 1"
    by (simp only: of_int_abs [symmetric] of_int_less_iff)
  then show ?thesis by linarith
qed

lemma nearest_double_err:
  assumes "0 < x"
  shows "\<bar>nearest_double x - x\<bar> \<le> x / 9007199254740992"
proof -
  define u where "u = find_ulp 2200 x 1"
  show ?thesis
  proof (cases "0 < u \<and> 2 ^ 52 * u \<le> x \<and> x < 2 ^ 53 * u")
    case True
    then have u: "0 < u" and lo: "4503599627370496 * u \<le> x" by simp_all
    define m :: rat where "m = of_int (round_half_even (x / u))"
    have n: "nearest_double x = m * u"
      using True by (simp add: nearest_double_def u_def [symmetric] m_def)
    have "\<bar>m - x / u\<bar> \<le> 1 / 2"
      unfolding m_def by (rule round_half_even_err)
    with u have "\<bar>m - x / u\<bar> * u \<le> 1 / 2 * u" by (simp only: mult_right_mono less_imp_le)
    moreover have "(m - x / u) * u = m * u - x" using u by (simp add: left_diff_distrib)
    then have "\<bar>m * u - x\<bar> = \<bar>m - x / u\<bar> * \<bar>u\<bar>" by (simp only: abs_mult [symmetric])
    with u have "\<bar>m * u - x\<bar> = \<bar>m - x / u\<bar> * u" by simp
    ultimately have "\<bar>nearest_double x - x\<bar> \<le> u / 2" by (simp add: n)
    with lo show ?thesis by linarith
  next
    case False
    have "nearest_double x =
          (if 0 < u \<and> 2 ^ 52 * u \<le> x \<and> x < 2 ^ 53 * u
           then of_int (round_half_even (x / u)) * u else x)"
      by (simp only: nearest_double_def Let_def u_def)
    with False have "nearest_double x = x" by (simp only: if_False)
    with assms show ?thesis by simp
  qed
qed

lemma to_double_err: "0 \<le> x \<Longrightarrow> \<bar>to_double x - x\<bar> \<le> x / 9007199254740992"
  using nearest_double_err [of x] by (auto simp: to_double_def)

lemma float_value:
  fixes w f :: nat
  assumes "w \<le> 99999" and "f < 10000"
  shows "float_round (to_double (of_nat w + to_double (of_nat f / 10000))) 4 =
         to_double (of_nat (w * 10000 + f) / 10000)"
proof -
  define a :: rat where "a = of_nat f / 10000"
  define y where "y = to_double a"
  define t where "t = of_nat w + y"
  define s where "s = to_double t"
  have a: "0 \<le> a" "a < 1" using assms(2) by (simp_all add: a_def)
  have w: "(0::rat) \<le> of_nat w" "(of_nat w :: rat) \<le> 99999" using assms(1) by simp_all
  from to_double_err [OF a(1)] have y: "\<bar>y - a\<bar> \<le> a / 9007199254740992" by (simp add: y_def)
  with a have y0: "0 \<le> y" and y1: "y \<le> 2" by linarith+
  from w y0 have t0: "0 \<le> t" by (simp add: t_def)
  from w y1 have t1: "t \<le> 100001" by (simp add: t_def)
  from to_double_err [OF t0] have s: "\<bar>s - t\<bar> \<le> t / 9007199254740992" by (simp add: s_def)
  define c where "c = s - (of_nat w + a)"
  have "c = (s - t) + (y - a)" by (simp add: c_def t_def)
  with s y a t1 have d: "\<bar>c\<bar> \<le> 100002 / 9007199254740992" by linarith
  have e: "s * 10 ^ 4 - of_int (int (w * 10000 + f)) = c * 10000"
    by (simp add: c_def a_def algebra_simps)
  have "\<bar>c * 10000\<bar> = \<bar>c\<bar> * 10000" by (simp add: abs_mult)
  with d have "\<bar>c * 10000\<bar> < 1 / 2" by linarith
  then have "\<bar>s * 10 ^ 4 - of_int (int (w * 10000 + f))\<bar> < 1 / 2" by (simp only: e)
  then have "round_half_even (s * 10 ^ 4) = int (w * 10000 + f)"
    by (rule round_half_even_near)
  then have "py_round s 4 = of_nat (w * 10000 + f) / 10000"
    by (simp add: py_round_def)
  then show ?thesis
    by (simp only: float_round_def s_def t_def y_def a_def)
qed

lemma parse_9digit_price_float_eq:
  assumes "filter is_digit s \<noteq> []"
  shows "parse_9digit_price_float s =
         Some (to_double (of_nat (digits_value (py_suffix 9 (filter is_digit s))) / 10000))"
proof -
  define ds where "ds = filter is_digit s"
  define nd where "nd = (if length ds < 9 then zfill 9 ds else py_suffix 9 ds)"
  have ds: "ds \<noteq> []" "list_all is_digit ds"
    using assms by (simp_all add: ds_def list_all_iff)
  from normalise_digits [OF ds] have nd: "length nd = 9" "list_all is_digit nd"
    "digits_value nd = digits_value (py_suffix 9 ds)"
    by (simp_all add: nd_def)
  from assms have s: "s \<noteq> []" by auto
  note sv = split_value [OF nd(1,2)]
  have "parse_9digit_price_float s =
        Some (float_round (to_double (of_nat (digits_value (take 5 nd))
                + to_double (of_nat (digits_value (drop 5 nd)) / 10000))) 4)"
    using s ds(1) sv(1,2)
    by (simp add: parse_9digit_price_float_def Let_def ds_def [symmetric] nd_def [symmetric])
  also have "\<dots> = Some (to_double (of_nat (digits_value nd) / 10000))"
    by (simp only: float_value [OF sv(4,5)] sv(3))
  finally show ?thesis by (simp add: nd(3) ds_def)
qed

lemma parse_9digit_price_float_exact:
  "parse_9digit_price_float s = map_option to_double (parse_9digit_price s)"
proof (cases "filter is_digit s = []")
  case True
  then show ?thesis
    by (simp add: parse_9digit_price_float_def parse_9digit_price_none)
next
  case False
  then show ?thesis
    by (simp add: parse_9digit_price_float_eq parse_9digit_price_eq)
qed

lemma reencode_double:
  fixes n :: nat
  assumes "n \<le> 999999999"
  shows "reencode_9digit (to_double (of_nat n / 10000)) = zfill 9 (str_nat n)"
proof -
  define r :: rat where "r = of_nat n"
  define d where "d = to_double (r / 10000)"
  define z where "z = to_double (d * 10000)"
  have n: "0 \<le> r" "r \<le> 999999999" using assms by (simp_all add: r_def)
  then have q: "0 \<le> r / 10000" by simp
  from to_double_err [OF q] have d: "\<bar>d - r / 10000\<bar> \<le> r / 10000 / 9007199254740992"
    by (simp add: d_def)
  with n have p: "0 \<le> d * 10000" "d * 10000 \<le> 1000000000" by linarith+
  from to_double_err [OF p(1)] have z: "\<bar>z - d * 10000\<bar> \<le> d * 10000 / 9007199254740992"
    by (simp add: z_def)
  from z d n p have "\<bar>z - r\<bar> < 1 / 2" by linarith
  then have "\<bar>z - of_int (int n)\<bar> < 1 / 2" by (simp add: r_def)
  then have "round_half_even z = int n" by (rule round_half_even_near)
  then show ?thesis
    by (simp add: reencode_9digit_def Let_def d_def [symmetric] z_def [symmetric] r_def [symmetric])
qed

lemma find_ulp_down:
  assumes "0 < u" and "x < 2 ^ 53 * u" and "k \<le> n" and "2 ^ 52 * u \<le> x * 2 ^ k"
  shows "\<exists>i\<le>k. find_ulp n x u = u / 2 ^ i \<and> 2 ^ 52 * (u / 2 ^ i) \<le> x
               \<and> x < 2 ^ 53 * (u / 2 ^ i)"
  using assms
proof (induction n arbitrary: u k)
  case 0
  then have "find_ulp 0 x u = u / 2 ^ 0 \<and> 2 ^ 52 * (u / 2 ^ 0) \<le> x \<and> x < 2 ^ 53 * (u / 2 ^ 0)"
    by simp
  then show ?case by blast
next
  case (Suc n)
  show ?case
  proof (cases "x < 2 ^ 52 * u")
    case True
    with Suc.prems(4) have "k \<noteq> 0" by (cases k) auto
    then obtain j where k: "k = Suc j" by (cases k) auto
    from Suc.prems k True have "0 < u / 2" "x < 2 ^ 53 * (u / 2)" "j \<le> n"
      "2 ^ 52 * (u / 2) \<le> x * 2 ^ j"
      by simp_all
    from Suc.IH [OF this] obtain i where i: "i \<le> j" "find_ulp n x (u / 2) = u / 2 / 2 ^ i"
      "2 ^ 52 * (u / 2 / 2 ^ i) \<le> x" "x < 2 ^ 53 * (u / 2 / 2 ^ i)"
      by blast
    have "u / 2 / 2 ^ i = u / 2 ^ Suc i" by simp
    with i True k have "Suc i \<le> k \<and> find_ulp (Suc n) x u = u / 2 ^ Suc i
        \<and> 2 ^ 52 * (u / 2 ^ Suc i) \<le> x \<and> x < 2 ^ 53 * (u / 2 ^ Suc i)"
      by simp
    then show ?thesis by blast
  next
    case False
    with Suc.prems have "find_ulp (Suc n) x u = u / 2 ^ 0 \<and> 2 ^ 52 * (u / 2 ^ 0) \<le> x
        \<and> x < 2 ^ 53 * (u / 2 ^ 0)"
      by simp
    then show ?thesis by blast
  qed
qed

lemma find_ulp_up:
  assumes "0 < u" and "2 ^ 52 * u \<le> x" and "k \<le> n" and "x < 2 ^ 53 * u * 2 ^ k"
  shows "\<exists>i\<le>k. find_ulp n x u = u * 2 ^ i \<and> 2 ^ 52 * (u * 2 ^ i) \<le> x
               \<and> x < 2 ^ 53 * (u * 2 ^ i)"
  using assms
proof (induction n arbitrary: u k)
  case 0
  then have "find_ulp 0 x u = u * 2 ^ 0 \<and> 2 ^ 52 * (u * 2 ^ 0) \<le> x \<and> x < 2 ^ 53 * (u * 2 ^ 0)"
    by simp
  then show ?case by blast
next
  case (Suc n)
  from Suc.prems(2) have nl: "\<not> x < 2 ^ 52 * u" by simp
  show ?case
  proof (cases "2 ^ 53 * u \<le> x")
    case True
    with Suc.prems(4) have "k \<noteq> 0" by (cases k) auto
    then obtain j where k: "k = Suc j" by (cases k) auto
    from Suc.prems k True have "0 < 2 * u" "2 ^ 52 * (2 * u) \<le> x" "j \<le> n"
      "x < 2 ^ 53 * (2 * u) * 2 ^ j"
      by simp_all
    from Suc.IH [OF this] obtain i where i: "i \<le> j" "find_ulp n x (2 * u) = 2 * u * 2 ^ i"
      "2 ^ 52 * (2 * u * 2 ^ i) \<le> x" "x < 2 ^ 53 * (2 * u * 2 ^ i)"
      by blast
    have "2 * u * 2 ^ i = u * 2 ^ Suc i" by simp
    with i True nl k have "Suc i \<le> k \<and> find_ulp (Suc n) x u = u * 2 ^ Suc i
        \<and> 2 ^ 52 * (u * 2 ^ Suc i) \<le> x \<and> x < 2 ^ 53 * (u * 2 ^ Suc i)"
      by simp
    then show ?thesis by blast
  next
    case False
    with Suc.prems nl have "find_ulp (Suc n) x u = u * 2 ^ 0 \<and> 2 ^ 52 * (u * 2 ^ 0) \<le> x
        \<and> x < 2 ^ 53 * (u * 2 ^ 0)"
      by simp
    then show ?thesis by blast
  qed
qed

lemma nearest_double_normal:
  assumes "1 / 2 ^ 1000 \<le> x" and "x < 2 ^ 1000"
  shows "\<exists>u. nearest_double x = of_int (round_half_even (x / u)) * u
             \<and> ((\<exists>i. u = 2 ^ i) \<or> (\<exists>i. u = 1 / 2 ^ i))
             \<and> 2 ^ 52 * u \<le> x \<and> x < 2 ^ 53 * u"
proof -
  have f: "\<exists>u. find_ulp 2200 x 1 = u \<and> 0 < u \<and> ((\<exists>i. u = 2 ^ i) \<or> (\<exists>i. u = 1 / 2 ^ i))
               \<and> 2 ^ 52 * u \<le> x \<and> x < 2 ^ 53 * u"
  proof (cases "x < 2 ^ 52")
    case True
    from assms(1) have "1 / 2 ^ 1000 * 2 ^ 1052 \<le> x * 2 ^ 1052"
      by (simp only: mult_right_mono zero_le_power zero_le_numeral)
    moreover have "(1::rat) / 2 ^ 1000 * 2 ^ 1052 = 2 ^ 52" by simp
    ultimately have "2 ^ 52 * 1 \<le> x * 2 ^ 1052" by simp
    moreover from True have "x < 2 ^ 53 * 1" by simp
    ultimately obtain i where "find_ulp 2200 x 1 = 1 / 2 ^ i" "2 ^ 52 * (1 / 2 ^ i) \<le> x"
      "x < 2 ^ 53 * (1 / 2 ^ i)"
      using find_ulp_down [of 1 x 1052 2200] by auto
    then show ?thesis by auto
  next
    case False
    then have "2 ^ 52 * 1 \<le> x" by simp
    moreover from assms(2) have "x < 2 ^ 53 * 1 * 2 ^ 948" by simp
    ultimately obtain i where "find_ulp 2200 x 1 = 1 * 2 ^ i" "2 ^ 52 * (1 * 2 ^ i) \<le> x"
      "x < 2 ^ 53 * (1 * 2 ^ i)"
      using find_ulp_up [of 1 x 948 2200] by auto
    then show ?thesis by auto
  qed
  then obtain u where u: "find_ulp 2200 x 1 = u" "0 < u"
    "(\<exists>i. u = 2 ^ i) \<or> (\<exists>i. u = 1 / 2 ^ i)" "2 ^ 52 * u \<le> x" "x < 2 ^ 53 * u"
    by blast
  then have "nearest_double x = of_int (round_half_even (x / u)) * u"
    by (simp add: nearest_double_def)
  with u show ?thesis by blast
qed

section \<open>Properties of the implied-decimal decoder\<close>

text \<open>
  C4. For every string of exactly nine decimal digits, decoding it with
  \<open>parse_9digit_price\<close> and re-encoding the decoded value as whole * 10000 + fraction,
  zero-padded to nine digits, gives the string back. The decoded value is the double the
  source returns, the one nearest to the exact price; the re-encoder takes the number of
  ten-thousandths nearest to that double. The whole and fractional parts that the decoder
  itself computes give the string back as well.
\<close>

theorem parse_reencode_roundtrip:
  assumes "length s = 9" and "list_all is_digit s"
  shows "map_option reencode_9digit (parse_9digit_price_float s) = Some s
       \<and> (\<exists>whole frac4.
             py_int (py_drop_suffix 4 s) = Some whole \<and> py_int (py_suffix 4 s) = Some frac4
             \<and> parse_9digit_price_float s =
                 Some (float_round (to_double (of_nat whole + to_double (of_nat frac4 / 10000))) 4)
             \<and> zfill 9 (str_nat (whole * 10000 + frac4)) = s)
       \<and> parse_9digit_price_float s = map_option to_double (parse_9digit_price s)"
proof -
  from assms have ne: "s \<noteq> []" by auto
  from assms(2) have f: "filter is_digit s = s" by (simp add: list_all_iff)
  from assms(1) have suf: "py_suffix 9 s = s" by (simp add: py_suffix_def)
  note sv = split_value [OF assms]
  have v: "parse_9digit_price_float s = Some (to_double (of_nat (digits_value s) / 10000))"
    using parse_9digit_price_float_eq [of s] ne by (simp add: f suf)
  have z: "zfill 9 (str_nat (digits_value s)) = s"
    using zfill_str_nat_digits_value [OF assms(2) ne] assms(1) by simp
  from digits_value_bound [OF assms(2)] assms(1) have b: "digits_value s \<le> 999999999" by simp
  have a: "map_option reencode_9digit (parse_9digit_price_float s) = Some s"
    by (simp add: v reencode_double [OF b] z)
  have p: "parse_9digit_price_float s =
        Some (float_round (to_double (of_nat (digits_value (take 5 s))
                + to_double (of_nat (digits_value (drop 5 s)) / 10000))) 4)"
    by (simp only: v float_value [OF sv(4,5)] sv(3))
  have "zfill 9 (str_nat (digits_value (take 5 s) * 10000 + digits_value (drop 5 s))) = s"
    by (simp only: sv(3) z)
  with sv(1,2) p have c: "\<exists>whole frac4.
             py_int (py_drop_suffix 4 s) = Some whole \<and> py_int (py_suffix 4 s) = Some frac4
             \<and> parse_9digit_price_float s =
                 Some (float_round (to_double (of_nat whole + to_double (of_nat frac4 / 10000))) 4)
             \<and> zfill 9 (str_nat (whole * 10000 + frac4)) = s"
    by blast
  from a c parse_9digit_price_float_exact [of s] show ?thesis by blast
qed

theorem parse_reencode_roundtrip_witness:
  "length (ascii ''000398000'') = 9 \<and> list_all is_digit (ascii ''000398000'')
   \<and> parse_9digit_price_float (ascii ''000398000'') =
       Some (2800676018271027 / 70368744177664)
   \<and> reencode_9digit (2800676018271027 / 70368744177664) = ascii ''000398000''"
proof -
  have h: "length (ascii ''000398000'') = 9" "list_all is_digit (ascii ''000398000'')"
    by (simp_all add: ascii_def is_digit_def)
  have "parse_9digit_price_float (ascii ''000398000'') = Some (to_double (398 / 10))"
    by (simp add: parse_9digit_price_float_eq ascii_def is_digit_def py_suffix_def
        digits_value_def)
  moreover have "to_double (398 / 10) = 2800676018271027 / 70368744177664"
    by (simp add: double_eval)
  ultimately have v: "parse_9digit_price_float (ascii ''000398000'') =
       Some (2800676018271027 / 70368744177664)"
    by simp
  from parse_reencode_roundtrip [OF h, THEN conjunct1] v
  have "reencode_9digit (2800676018271027 / 70368744177664) = ascii ''000398000''" by simp
  with h v show ?thesis by simp
qed

text \<open>
  The double for 39.8 lies below 39.8, so a re-encoder that truncated instead of rounding
  would be one ten-thousandth short.
\<close>

lemma floor_split_is_one_short:
  "nat \<lfloor>(2800676018271027 / 70368744177664 :: rat) * 10000\<rfloor> = 397999
   \<and> (2800676018271027 / 70368744177664 :: rat) < 398 / 10"
  by (simp add: floor_numeral_div)

text \<open>
  C5. When at least nine digits remain after the non-digits are stripped, the decoded
  value depends only on the rightmost nine of them: two inputs whose digit sequences agree
  on the last nine digits decode to the same value, which is the value of those nine
  digits alone, and a value is returned.
\<close>

theorem parse_rightmost_nine:
  assumes "9 \<le> length (filter is_digit a)" and "9 \<le> length (filter is_digit b)"
    and "py_suffix 9 (filter is_digit a) = py_suffix 9 (filter is_digit b)"
  shows "parse_9digit_price a = parse_9digit_price b
         \<and> parse_9digit_price a = parse_9digit_price (py_suffix 9 (filter is_digit a))
         \<and> parse_9digit_price a \<noteq> None"
proof -
  define t where "t = py_suffix 9 (filter is_digit a)"
  from assms(1) have na: "filter is_digit a \<noteq> []" by auto
  from assms(2) have nb: "filter is_digit b \<noteq> []" by auto
  have "set t \<subseteq> set (filter is_digit a)"
    unfolding t_def py_suffix_def by (rule set_drop_subset)
  then have ft: "filter is_digit t = t"
    by (auto simp: filter_id_conv)
  from assms(1) have lt: "length t = 9" by (simp add: t_def py_suffix_def)
  then have nt: "filter is_digit t \<noteq> []" and st: "py_suffix 9 t = t"
    by (auto simp: ft py_suffix_def)
  show ?thesis
    using parse_9digit_price_eq [OF na] parse_9digit_price_eq [OF nb] parse_9digit_price_eq [OF nt]
      assms(3)
    by (simp add: ft st t_def [symmetric])
qed

theorem parse_rightmost_nine_witness:
  "9 \<le> length (filter is_digit (ascii ''000000398000''))
   \<and> 9 \<le> length (filter is_digit (ascii ''77 7000398000''))
   \<and> py_suffix 9 (filter is_digit (ascii ''000000398000'')) = ascii ''000398000''
   \<and> py_suffix 9 (filter is_digit (ascii ''77 7000398000'')) = ascii ''000398000''
   \<and> parse_9digit_price (ascii ''000000398000'') = parse_9digit_price (ascii ''77 7000398000'')
   \<and> parse_9digit_price (ascii ''000000398000'') = Some (398 / 10)"
proof -
  have h: "9 \<le> length (filter is_digit (ascii ''000000398000''))"
    "9 \<le> length (filter is_digit (ascii ''77 7000398000''))"
    "py_suffix 9 (filter is_digit (ascii ''000000398000'')) =
     py_suffix 9 (filter is_digit (ascii ''77 7000398000''))"
    by (simp_all add: ascii_def is_digit_def py_suffix_def)
  have s: "py_suffix 9 (filter is_digit (ascii ''000000398000'')) = ascii ''000398000''"
    "py_suffix 9 (filter is_digit (ascii ''77 7000398000'')) = ascii ''000398000''"
    by (simp_all add: ascii_def is_digit_def py_suffix_def)
  have v: "parse_9digit_price (ascii ''000000398000'') = Some (398 / 10)"
    by (simp add: parse_9digit_price_eq ascii_def is_digit_def py_suffix_def digits_value_def)
  from parse_rightmost_nine [OF h] h s v show ?thesis by simp
qed

text \<open>
  C9. \<open>parse_9digit_price\<close> returns no value exactly when its input contains no decimal
  digit, in both copies of the function. For an input with a digit the padded or truncated
  digit string has nine characters and both calls of \<open>int\<close> succeed, so the handler of
  the final \<open>try\<close> is never entered.
\<close>

theorem parse_none_iff_no_digit:
  "(parse_9digit_price s = None \<longleftrightarrow> (\<forall>c \<in> set s. \<not> is_digit c))
   \<and> (parse_9digit_price_diag s = None \<longleftrightarrow> (\<forall>c \<in> set s. \<not> is_digit c))
   \<and> ((\<exists>c \<in> set s. is_digit c) \<longrightarrow>
        (let digits = filter is_digit s;
             digits9 = (if length digits < 9 then zfill 9 digits else py_suffix 9 digits)
         in length digits9 = 9 \<and> py_int (py_drop_suffix 4 digits9) \<noteq> None
            \<and> py_int (py_suffix 4 digits9) \<noteq> None))"
proof -
  have a: "parse_9digit_price s = None \<longleftrightarrow> (\<forall>c \<in> set s. \<not> is_digit c)"
  proof (cases "filter is_digit s = []")
    case True
    then show ?thesis by (simp add: parse_9digit_price_none filter_empty_conv)
  next
    case False
    then show ?thesis by (simp add: parse_9digit_price_eq filter_empty_conv)
  qed
  have c: "let digits = filter is_digit s;
               digits9 = (if length digits < 9 then zfill 9 digits else py_suffix 9 digits)
           in length digits9 = 9 \<and> py_int (py_drop_suffix 4 digits9) \<noteq> None
              \<and> py_int (py_suffix 4 digits9) \<noteq> None"
    if "\<exists>c \<in> set s. is_digit c"
  proof -
    from that have ne: "filter is_digit s \<noteq> []" by (simp add: filter_empty_conv)
    have d: "list_all is_digit (filter is_digit s)" by (simp add: list_all_iff)
    note n = normalise_digits [OF ne d]
    from n(1) split_value(1,2) [OF n(1,2)] show ?thesis by (simp add: Let_def)
  qed
  from a c show ?thesis by (simp add: parse_9digit_price_diag_eq)
qed

theorem parse_none_iff_no_digit_witness:
  "(\<exists>c \<in> set (ascii ''39.8''). is_digit c) \<and> parse_9digit_price (ascii ''39.8'') \<noteq> None
   \<and> py_int (py_drop_suffix 4 (zfill 9 (ascii ''398''))) \<noteq> None
   \<and> py_int (py_suffix 4 (zfill 9 (ascii ''398''))) \<noteq> None
   \<and> filter is_digit (ascii '' - '') = [] \<and> parse_9digit_price (ascii '' - '') = None"
proof -
  have h: "\<exists>c \<in> set (ascii ''39.8''). is_digit c"
    and f: "filter is_digit (ascii ''39.8'') = ascii ''398''"
    and g: "\<forall>c \<in> set (ascii '' - ''). \<not> is_digit c"
    by (simp_all add: ascii_def is_digit_def)
  have e: "filter is_digit (ascii '' - '') = []"
    by (simp add: ascii_def is_digit_def)
  from h g f e parse_none_iff_no_digit [of "ascii ''39.8''"]
    parse_none_iff_no_digit [of "ascii '' - ''"]
  show ?thesis
    by (simp add: Let_def ascii_def)
qed

section \<open>Properties of the byte slicer\<close>

text \<open>
  C8. For every byte sequence and every pair of non-negative offsets \<open>slice_bytes\<close>
  returns a string and does not raise, whatever the codec. Decoding in replace mode never
  raises; where strict decoding succeeds it gives the same text, and where strict decoding
  would raise it gives a text that holds the placeholder U+FFFD. A range that extends past
  the end gives the stripped decoded text of the bytes that exist in it, the empty string
  when there are none. Bytes below 0x80 decode to themselves.
\<close>

theorem slice_bytes_never_fails:
  "(\<exists>s. py_decode cdc Replace (py_slice bs start stop) = Inr s
        \<and> slice_bytes cdc bs start stop = py_strip s)
   \<and> (py_decode cdc Strict xs = Inr t \<longrightarrow> py_decode cdc Replace xs = Inr t)
   \<and> (py_decode cdc Strict xs = Inl e \<longrightarrow>
        (\<exists>s. py_decode cdc Replace xs = Inr s \<and> REPLACEMENT \<in> set s))
   \<and> slice_bytes cdc bs start stop =
       py_strip (decode_replace cdc (map (\<lambda>i. bs ! i) [start ..< min stop (length bs)]))
   \<and> (length bs \<le> start \<longrightarrow> slice_bytes cdc bs start stop = [])
   \<and> ((\<forall>b \<in> set xs. (of_char b :: nat) < 128) \<longrightarrow>
        slice_bytes (cp950_step tbl) xs 0 (length xs) = py_strip (map of_char xs))"
proof -
  have a: "\<exists>s. py_decode cdc Replace (py_slice bs start stop) = Inr s
               \<and> slice_bytes cdc bs start stop = py_strip s"
    by (simp add: slice_bytes_def py_decode_replace)
  have b: "py_decode cdc Replace xs = Inr t" if "py_decode cdc Strict xs = Inr t"
    using strict_agrees [OF that] by (simp add: py_decode_replace)
  have c: "\<exists>s. py_decode cdc Replace xs = Inr s \<and> REPLACEMENT \<in> set s"
    if "py_decode cdc Strict xs = Inl e"
    using strict_fails_placeholder [OF that] by (simp add: py_decode_replace)
  have d: "slice_bytes cdc bs start stop =
       py_strip (decode_replace cdc (map (\<lambda>i. bs ! i) [start ..< min stop (length bs)]))"
    by (simp add: slice_bytes_def py_decode_replace py_slice_upt)
  have f: "slice_bytes cdc bs start stop = []" if "length bs \<le> start"
    using that by (simp add: slice_bytes_def py_decode_replace py_slice_past_end py_strip_def)
  have g: "slice_bytes (cp950_step tbl) xs 0 (length xs) = py_strip (map of_char xs)"
    if "\<forall>b \<in> set xs. (of_char b :: nat) < 128"
    using cp950_ascii [OF that, of tbl]
    by (simp add: slice_bytes_def py_decode_replace py_slice_take_drop)
  from a b c d f g show ?thesis by blast
qed

theorem slice_bytes_never_fails_witness:
  "py_decode (cp950_step big5_sample) Strict [CHR ''a'', CHR 0xFF, CHR ''b'', CHR '' ''] =
     Inl ''UnicodeDecodeError''
   \<and> py_decode (cp950_step big5_sample) Replace [CHR ''a'', CHR 0xFF, CHR ''b'', CHR '' ''] =
     Inr [97, REPLACEMENT, 98, 32]
   \<and> slice_bytes (cp950_step big5_sample) [CHR ''a'', CHR 0xFF, CHR ''b'', CHR '' ''] 0 4 =
     [97, REPLACEMENT, 98]
   \<and> py_decode (cp950_step big5_sample) Strict [CHR ''a'', CHR 0xA4, CHR ''b'', CHR '' ''] =
     Inr [97, 0x5203, 32]
   \<and> slice_bytes (cp950_step big5_sample) [CHR ''a'', CHR 0xA4, CHR ''b'', CHR '' ''] 0 4 =
     [97, 0x5203]
   \<and> slice_bytes (cp950_step big5_sample) ''abc'' 1 10 = ascii ''bc''
   \<and> length ''abc'' \<le> 5 \<and> slice_bytes (cp950_step big5_sample) ''abc'' 5 10 = []"
proof -
  have s: "py_decode (cp950_step big5_sample) Strict [CHR ''a'', CHR 0xFF, CHR ''b'', CHR '' ''] =
     Inl ''UnicodeDecodeError''"
    "py_decode (cp950_step big5_sample) Strict [CHR ''a'', CHR 0xA4, CHR ''b'', CHR '' ''] =
     Inr [97, 0x5203, 32]"
    by (simp_all add: cp950_step_def big5_sample_def)
  have r: "py_decode (cp950_step big5_sample) Replace [CHR ''a'', CHR 0xFF, CHR ''b'', CHR '' ''] =
     Inr [97, REPLACEMENT, 98, 32]"
    by (simp add: cp950_step_def big5_sample_def)
  have e: "slice_bytes (cp950_step big5_sample) [CHR ''a'', CHR 0xFF, CHR ''b'', CHR '' ''] 0 4 =
     [97, REPLACEMENT, 98]"
    "slice_bytes (cp950_step big5_sample) [CHR ''a'', CHR 0xA4, CHR ''b'', CHR '' ''] 0 4 =
     [97, 0x5203]"
    "slice_bytes (cp950_step big5_sample) ''abc'' 1 10 = ascii ''bc''"
    by (simp_all add: slice_bytes_def py_decode_replace py_slice_def cp950_step_def
        big5_sample_def py_strip_def py_isspace_def REPLACEMENT_def ascii_def upt_rec)
  have h: "length ''abc'' \<le> (5::nat)" by simp
  note t = slice_bytes_never_fails [of "cp950_step big5_sample" "''abc''" 5 10
      "[CHR ''a'', CHR 0xA4, CHR ''b'', CHR '' '']" "[97, 0x5203, 32]"]
  from t h have z: "slice_bytes (cp950_step big5_sample) ''abc'' 5 10 = []" by blast
  show ?thesis
    by (intro conjI) (rule s r e h z)+
qed

section \<open>Properties of the record validator\<close>





text \<open>
  C10. Every value returned by \<open>parse_9digit_price\<close> lies between 0 and 99999.9999,
  with a whole part of at most 99999 and a fraction below 1. It is therefore never above
  \<open>MAX_PRICE\<close>: the price check fails only below \<open>MIN_PRICE\<close>, and a rejection with
  \<open>close_out_of_bounds\<close> always carries a value strictly below \<open>MIN_PRICE\<close>.
\<close>

theorem parse_range_upper_bound_dead:
  "(parse_9digit_price s = Some v \<longrightarrow>
      0 \<le> v \<and> v \<le> 999999999 / 10000
      \<and> (\<exists>whole frac4. whole \<le> 99999 \<and> frac4 < 10000 \<and> v = of_nat whole + of_nat frac4 / 10000)
      \<and> v \<le> MAX_PRICE \<and> (sane_price (Some v) \<longleftrightarrow> MIN_PRICE \<le> v))
   \<and> (process_line cdc fname date_tag lineno raw = Rejected d \<and> reason d = close_out_of_bounds x
        \<longrightarrow> 0 \<le> x \<and> x < MIN_PRICE)"
proof -
  have r: "0 \<le> v \<and> v \<le> 999999999 / 10000
      \<and> (\<exists>whole frac4. whole \<le> 99999 \<and> frac4 < 10000 \<and> v = of_nat whole + of_nat frac4 / 10000)
      \<and> v \<le> MAX_PRICE \<and> (sane_price (Some v) \<longleftrightarrow> MIN_PRICE \<le> v)"
    if "parse_9digit_price s = Some v" for s v
  proof -
    from parse_9digit_price_range [OF that] obtain k
      where k: "k \<le> 999999999" and v: "v = of_nat k / 10000" by blast
    from k have "(of_nat k :: rat) \<le> of_nat 999999999" by (simp only: of_nat_le_iff)
    then have up: "v \<le> 999999999 / 10000" by (simp add: v divide_right_mono)
    have lo: "0 \<le> v" by (simp add: v)
    have "(of_nat k :: rat) = of_nat (k div 10000 * 10000 + k mod 10000)" by simp
    then have "(of_nat k :: rat) = of_nat (k div 10000) * 10000 + of_nat (k mod 10000)"
      by (simp only: of_nat_add of_nat_mult of_nat_numeral)
    then have sp: "v = of_nat (k div 10000) + of_nat (k mod 10000) / 10000"
      by (simp add: v field_simps)
    from k have w: "k div 10000 \<le> 99999" by simp
    have f: "k mod 10000 < 10000" by simp
    from up have mx: "v \<le> MAX_PRICE" by (simp add: MAX_PRICE_def)
    from w f sp have "\<exists>whole frac4. whole \<le> 99999 \<and> frac4 < 10000 \<and>
        v = of_nat whole + of_nat frac4 / 10000" by blast
    with lo up mx show ?thesis by (simp add: sane_price_iff)
  qed
  have "0 \<le> x \<and> x < MIN_PRICE"
    if "process_line cdc fname date_tag lineno raw = Rejected d" "reason d = close_out_of_bounds x"
  proof -
    from process_line_out_of_bounds [OF that] obtain t
      where t: "parse_9digit_price t = Some x" "\<not> sane_price (Some x)" by blast
    from r [OF t(1)] t(2) show ?thesis by auto
  qed
  with r show ?thesis by blast
qed

theorem parse_range_upper_bound_dead_witness:
  "parse_9digit_price (ascii ''999999999'') = Some (999999999 / 10000)
   \<and> sane_price (Some (999999999 / 10000))
   \<and> process_line ascii_codec (ascii ''q.txt'') (ascii ''20200420'') 3 (line_low @ [LF]) =
     Rejected \<lparr>dbg_file = ascii ''q.txt'', dbg_line_no = 3,
               reason = close_out_of_bounds (1 / 200),
               line_preview = ascii line_low, dbg_close_raw = ascii ''000000050''\<rparr>
   \<and> (1 / 200 :: rat) < MIN_PRICE"
proof -
  have p: "parse_9digit_price (ascii ''999999999'') = Some (999999999 / 10000)"
    by (simp add: parse_9digit_price_eq ascii_def is_digit_def py_suffix_def digits_value_def)
  have q: "process_line ascii_codec (ascii ''q.txt'') (ascii ''20200420'') 3 (line_low @ [LF]) =
     Rejected \<lparr>dbg_file = ascii ''q.txt'', dbg_line_no = 3,
               reason = close_out_of_bounds (1 / 200),
               line_preview = ascii line_low, dbg_close_raw = ascii ''000000050''\<rparr>"
    by (simp add: process_line_def process_line_with_def extract_fields_eq validate_def line_eval
        line_low_def parse_9digit_price_eq py_suffix_def digits_value_def sane_price_def
        MIN_PRICE_def)
  from parse_range_upper_bound_dead [of "ascii ''999999999''" "999999999 / 10000" ascii_codec
      "ascii ''q.txt''" "ascii ''20200420''" 3 "line_low @ [LF]"
      "\<lparr>dbg_file = ascii ''q.txt'', dbg_line_no = 3,
               reason = close_out_of_bounds (1 / 200),
               line_preview = ascii line_low, dbg_close_raw = ascii ''000000050''\<rparr>" "1 / 200"] p q
  show ?thesis
    by (simp add: MIN_PRICE_def)
qed

section \<open>Properties of the file processor\<close>




text \<open>
  With \<open>verbose\<close> on, a print that raises inside the \<open>try\<close> is taken by the handler of
  the read: the loop ends there, the lines that remain give no record, and a record with
  line number 0 is appended. A print that raises before the \<open>try\<close> leaves
  \<open>process_file\<close>. Here the console cannot encode U+FFFD and the name of the first data
  line holds the byte FF.
\<close>

lemma raising_print_ends_file:
  "length (data_lines bad_name_file) = 2
   \<and> process_file narrow_console True (cp950_step big5_sample) (ascii ''q.txt'')
        (Inr bad_name_file) (ascii ''20200420'') [] [] =
      Inr ([], [file_error_row (ascii ''q.txt'') ''UnicodeEncodeError''])
   \<and> process_file narrow_console True (cp950_step big5_sample) (ascii ''q.txt'')
        (Inr [[CHR 0xFF]]) [REPLACEMENT] [] [] = Inl ''UnicodeEncodeError''"
proof -
  have n: "length (data_lines bad_name_file) = 2"
    by (simp add: data_lines_def bad_name_file_def line_ok_def line_bad_name_def
        rstrip_crlf_def CR_def LF_def)
  have h: "narrow_console Rule = None" "narrow_console (Processing (ascii ''q.txt'')) = None"
    "narrow_console (DateTag (ascii ''20200420'')) = None"
    "\<And>k. narrow_console (TotalLines k) = None"
    by (simp_all add: narrow_console_def message_text_def ascii_def REPLACEMENT_def)
  have b: "loop_body narrow_console True (cp950_step big5_sample) (ascii ''q.txt'')
             (ascii ''20200420'') 2 0 (line_bad_name @ [CR, LF]) = Inl ''UnicodeEncodeError''"
    by (simp add: loop_body_def loop_body_with_def extract_fields_eq sample_messages_def
        line_bad_name_def rstrip_crlf_def CR_def LF_def min_len_59 slice_bytes_def
        py_decode_replace py_slice_def cp950_step_def big5_sample_def py_strip_def py_isspace_def
        narrow_console_def message_text_def REPLACEMENT_def upt_rec Let_def)
  have r: "process_file narrow_console True (cp950_step big5_sample) (ascii ''q.txt'')
        (Inr bad_name_file) (ascii ''20200420'') [] [] =
      Inr ([], [file_error_row (ascii ''q.txt'') ''UnicodeEncodeError''])"
    unfolding process_file_def bad_name_file_def
    by (simp add: h b handle_file_error_def)
  have e: "process_file narrow_console True (cp950_step big5_sample) (ascii ''q.txt'')
        (Inr [[CHR 0xFF]]) [REPLACEMENT] [] [] = Inl ''UnicodeEncodeError''"
    by (simp add: process_file_def narrow_console_def message_text_def ascii_def REPLACEMENT_def)
  from n r e show ?thesis by simp
qed

text \<open>
  C2, as the code has it. A data line shorter than 59, the largest end offset of the
  layout, is rejected without any field extraction: the outcome is the same whatever the
  extraction step would return or raise, and the record's raw closing price is empty. The
  reason is \<open>line_too_short\<close> in \<open>extract_quotes_byte_level.py\<close>, where the length
  counts bytes, and \<open>padded_short_line\<close> in \<open>extract_quotes_diagnostic.py\<close>, where it
  counts decoded characters.
\<close>

theorem short_line_rejected_before_extraction:
  "(rstrip_crlf raw = l \<and> l \<noteq> [] \<and> length l < min_len \<longrightarrow>
      process_line_with extract cdc fname date_tag lineno raw =
        Rejected \<lparr>dbg_file = fname, dbg_line_no = lineno, reason = line_too_short,
                  line_preview = decode_replace cdc (py_slice l 0 100), dbg_close_raw = []\<rparr>
      \<and> process_line cdc fname date_tag lineno raw =
        Rejected \<lparr>dbg_file = fname, dbg_line_no = lineno, reason = line_too_short,
                  line_preview = decode_replace cdc (py_slice l 0 100), dbg_close_raw = []\<rparr>)
   \<and> (rstrip_crlf_str raw' = l' \<and> py_strip l' \<noteq> [] \<and> length l' < min_len \<longrightarrow>
      process_line_diag_with extract' fname date_tag lineno raw' =
        Rejected \<lparr>dbg_file = fname, dbg_line_no = lineno, reason = padded_short_line,
                  line_preview = py_slice raw' 0 200, dbg_close_raw = []\<rparr>
      \<and> process_line_diag fname date_tag lineno raw' =
        Rejected \<lparr>dbg_file = fname, dbg_line_no = lineno, reason = padded_short_line,
                  line_preview = py_slice raw' 0 200, dbg_close_raw = []\<rparr>)
   \<and> min_len = 59 \<and> min_len = Max (set (map (\<lambda>f. snd (BYTE_POS f)) all_fields))"
  by (auto simp: process_line_def process_line_with_def process_line_diag_def
      process_line_diag_with_def Let_def min_len_59 POS_def all_fields_def)

theorem short_line_rejected_before_extraction_witness:
  "rstrip_crlf (''abc'' @ [CR, LF]) = ''abc'' \<and> length ''abc'' < min_len
   \<and> process_line_with (\<lambda>l. Inl ''raised'') ascii_codec (ascii ''q.txt'') (ascii ''20200420'') 4
        (''abc'' @ [CR, LF]) =
      Rejected \<lparr>dbg_file = ascii ''q.txt'', dbg_line_no = 4, reason = line_too_short,
         line_preview = ascii ''abc'', dbg_close_raw = []\<rparr>
   \<and> process_line ascii_codec (ascii ''q.txt'') (ascii ''20200420'') 4 (''abc'' @ [CR, LF]) =
      Rejected \<lparr>dbg_file = ascii ''q.txt'', dbg_line_no = 4, reason = line_too_short,
         line_preview = ascii ''abc'', dbg_close_raw = []\<rparr>
   \<and> process_line_diag_with (\<lambda>l. Inl ''raised'') (ascii ''q.txt'') (ascii ''20200420'') 4
        (ascii ''abc'' @ [10]) =
      Rejected \<lparr>dbg_file = ascii ''q.txt'', dbg_line_no = 4, reason = padded_short_line,
         line_preview = ascii ''abc'' @ [10], dbg_close_raw = []\<rparr>"
proof -
  have h: "rstrip_crlf (''abc'' @ [CR, LF]) = ''abc''" "''abc'' \<noteq> []" "length ''abc'' < min_len"
    by (simp_all add: rstrip_crlf_def CR_def LF_def min_len_59)
  have g: "rstrip_crlf_str (ascii ''abc'' @ [10]) = ascii ''abc''" "py_strip (ascii ''abc'') \<noteq> []"
    "length (ascii ''abc'') < min_len"
    by (simp_all add: rstrip_crlf_str_def py_strip_def py_isspace_def ascii_def min_len_59)
  have p: "decode_replace ascii_codec (py_slice ''abc'' 0 100) = ascii ''abc''"
    "py_slice (ascii ''abc'' @ [10]) 0 200 = ascii ''abc'' @ [10]"
    by (simp_all add: line_eval)
  from short_line_rejected_before_extraction [of "''abc'' @ [CR, LF]" "''abc''"
      "\<lambda>l. Inl ''raised''" ascii_codec "ascii ''q.txt''" "ascii ''20200420''" 4
      "ascii ''abc'' @ [10]" "ascii ''abc''" "\<lambda>l. Inl ''raised''"] h g p
  show ?thesis by simp
qed

text \<open>
  C2 as stated fails in \<open>extract_quotes_diagnostic.py\<close>: a short line is rejected there
  with the reason \<open>padded_short_line\<close>, not \<open>line_too_short\<close>.
\<close>

theorem short_line_diag_reason_counterexample:
  "rstrip_crlf_str (ascii ''abc'' @ [10]) = ascii ''abc''
   \<and> length (ascii ''abc'') < 59
   \<and> process_line_diag (ascii ''q.txt'') (ascii ''20200420'') 2 (ascii ''abc'' @ [10]) =
      Rejected \<lparr>dbg_file = ascii ''q.txt'', dbg_line_no = 2, reason = padded_short_line,
         line_preview = ascii ''abc'' @ [10], dbg_close_raw = []\<rparr>
   \<and> padded_short_line \<noteq> line_too_short"
  by (simp add: process_line_diag_def process_line_diag_with_def rstrip_crlf_str_def py_strip_def
      py_isspace_def ascii_def POS_def py_slice_def)

section \<open>Properties of the date resolver\<close>

text \<open>
  C7, as the code has it. For every file, readable or not, every file name and every year
  hint that is absent or made of four digits, \<open>derive_date_for_file\<close> returns (it is a
  total function: a failure to open or read the file is the \<open>Inl\<close> case) a string of
  exactly eight digits, in both copies. The header candidates are the leftmost runs of eight
  digits of the first three lines, in order; the file-name candidate is the parenthesized
  tag, a tag of three or four digits zero-padded to four and put after the year hint, a tag
  of eight digits as it is. In \<open>extract_quotes_byte_level.py\<close> the result is the first
  header candidate, else the file-name candidate, else the year hint followed by 0101, else
  19700101. In \<open>extract_stock_for_ml.py\<close> the result is the first header candidate that
  parses as a calendar date, else the file-name candidate if it parses as one, else the same
  two defaults; so every date that copy returns parses as a calendar date or is the default.
\<close>

theorem derive_date_eight_digits:
  assumes "\<forall>c. is_digit c \<longrightarrow> isd c" and "year_hint_ok isd year_hint"
  shows "date8 isd (derive_date_for_file isd header name year_hint)
       \<and> date8 isd (derive_date_for_file_ml isd valid header name year_hint)
       \<and> derive_date_for_file isd header name year_hint =
          (case (case header of Inl e \<Rightarrow> None | Inr lines \<Rightarrow> scan_header isd 3 lines) of
             Some d \<Rightarrow> d
           | None \<Rightarrow>
               (case (case search_tag isd name of
                        None \<Rightarrow> None
                      | Some m \<Rightarrow>
                          (case (if length m \<le> 4 then year_hint else None) of
                             Some y \<Rightarrow> Some (y @ zfill 4 m)
                           | None \<Rightarrow> if length m = 8 then Some m else None)) of
                  Some d \<Rightarrow> d
                | None \<Rightarrow>
                    (case year_hint of
                       Some y \<Rightarrow> y @ ascii ''0101''
                     | None \<Rightarrow> ascii ''19700101'')))
       \<and> (header = Inr lines \<and> scan_header isd 3 lines = Some d \<longrightarrow>
            derive_date_for_file isd header name year_hint = d
            \<and> (\<exists>l \<in> set (take 3 lines). \<exists>pre post. l = pre @ d @ post))
       \<and> (case header of Inl e \<Rightarrow> None | Inr lines \<Rightarrow> scan_header isd 3 lines) =
          (case header_candidates isd header of [] \<Rightarrow> None | d # _ \<Rightarrow> Some d)
       \<and> derive_date_for_file_ml isd valid header name year_hint =
          (case find valid (header_candidates isd header) of
             Some d \<Rightarrow> d
           | None \<Rightarrow>
               (case (case search_tag isd name of
                        None \<Rightarrow> None
                      | Some m \<Rightarrow>
                          (case (if length m \<le> 4 then year_hint else None) of
                             Some y \<Rightarrow>
                               if valid (y @ zfill 4 m) then Some (y @ zfill 4 m) else None
                           | None \<Rightarrow> if length m = 8 \<and> valid m then Some m else None)) of
                  Some d \<Rightarrow> d
                | None \<Rightarrow>
                    (case year_hint of
                       Some y \<Rightarrow> y @ ascii ''0101''
                     | None \<Rightarrow> ascii ''19700101'')))
       \<and> (valid (derive_date_for_file_ml isd valid header name year_hint)
          \<or> derive_date_for_file_ml isd valid header name year_hint =
              (case year_hint of
                 Some y \<Rightarrow> y @ ascii ''0101''
               | None \<Rightarrow> ascii ''19700101''))"
proof -
  note z = ascii_digits [OF assms(1)]
  have a: "date8 isd (derive_date_for_file isd header name year_hint)"
    using scan_header_date8 [of isd 3] filename_rule_date8 [OF assms]
      default_date8 [OF assms]
    by (auto simp: derive_date_for_file_def checked_hint_ok [OF assms(2)]
             split: sum.splits option.splits)
  have b: "date8 isd (derive_date_for_file_ml isd valid header name year_hint)"
    using scan_header_ml_date8 [of isd valid 3] filename_rule_ml_date8 [OF assms]
      default_date8 [OF assms]
    by (auto simp: derive_date_for_file_ml_def truthy_hint_ok [OF assms(2)]
             split: sum.splits option.splits)
  have f: "filename_rule isd name year_hint =
           (case search_tag isd name of
              None \<Rightarrow> None
            | Some m \<Rightarrow>
                (case (if length m \<le> 4 then year_hint else None) of
                   Some y \<Rightarrow> Some (y @ zfill 4 m)
                 | None \<Rightarrow> if length m = 8 then Some m else None))"
  proof (cases "search_tag isd name")
    case None
    then show ?thesis by (simp add: filename_rule_def)
  next
    case (Some m)
    from search_tag_props [OF Some] have m: "3 \<le> length m" "list_all isd m" by simp_all
    from zfill_props [OF m(2), of 4] z have l: "length (zfill 4 m) = max 4 (length m)" by simp
    have e: "length m = 8 \<Longrightarrow> zfill 4 m = m" by (simp add: zfill_def)
    from Some l e show ?thesis
      by (auto simp: filename_rule_def Let_def checked_hint_ok [OF assms(2)] max_def
               split: option.splits if_splits)
  qed
  have c: "derive_date_for_file isd header name year_hint =
          (case (case header of Inl e \<Rightarrow> None | Inr lines \<Rightarrow> scan_header isd 3 lines) of
             Some d \<Rightarrow> d
           | None \<Rightarrow>
               (case (case search_tag isd name of
                        None \<Rightarrow> None
                      | Some m \<Rightarrow>
                          (case (if length m \<le> 4 then year_hint else None) of
                             Some y \<Rightarrow> Some (y @ zfill 4 m)
                           | None \<Rightarrow> if length m = 8 then Some m else None)) of
                  Some d \<Rightarrow> d
                | None \<Rightarrow>
                    (case year_hint of
                       Some y \<Rightarrow> y @ ascii ''0101''
                     | None \<Rightarrow> ascii ''19700101'')))"
    by (simp only: derive_date_for_file_def f checked_hint_ok [OF assms(2)])
  have d: "derive_date_for_file isd header name year_hint = d
            \<and> (\<exists>l \<in> set (take 3 lines). \<exists>pre post. l = pre @ d @ post)"
    if "header = Inr lines" "scan_header isd 3 lines = Some d"
    using that scan_header_source [OF that(2)] by (simp add: derive_date_for_file_def)
  have g: "(case header of Inl e \<Rightarrow> None | Inr lines \<Rightarrow> scan_header isd 3 lines) =
          (case header_candidates isd header of [] \<Rightarrow> None | d # _ \<Rightarrow> Some d)"
    by (rule header_rule_closed)
  have m: "derive_date_for_file_ml isd valid header name year_hint =
          (case find valid (header_candidates isd header) of
             Some d \<Rightarrow> d
           | None \<Rightarrow>
               (case (case search_tag isd name of
                        None \<Rightarrow> None
                      | Some m \<Rightarrow>
                          (case (if length m \<le> 4 then year_hint else None) of
                             Some y \<Rightarrow>
                               if valid (y @ zfill 4 m) then Some (y @ zfill 4 m) else None
                           | None \<Rightarrow> if length m = 8 \<and> valid m then Some m else None)) of
                  Some d \<Rightarrow> d
                | None \<Rightarrow>
                    (case year_hint of
                       Some y \<Rightarrow> y @ ascii ''0101''
                     | None \<Rightarrow> ascii ''19700101'')))"
    by (simp only: derive_date_for_file_ml_def header_rule_ml_closed
        filename_rule_ml_closed [OF assms] truthy_hint_ok [OF assms(2)])
  have e: "derive_date_for_file_ml isd valid header name year_hint =
            (case find valid (header_candidates isd header) of
               Some d \<Rightarrow> d
             | None \<Rightarrow>
                 (case filename_rule_ml isd valid name year_hint of
                    Some d \<Rightarrow> d
                  | None \<Rightarrow>
                      (case year_hint of
                         Some y \<Rightarrow> y @ ascii ''0101''
                       | None \<Rightarrow> ascii ''19700101'')))"
    by (simp only: derive_date_for_file_ml_def header_rule_ml_closed
        truthy_hint_ok [OF assms(2)])
  have h: "valid x" if "find valid (header_candidates isd header) = Some x" for x
    using find_SomeD [OF that] by simp
  have v: "valid (derive_date_for_file_ml isd valid header name year_hint)
          \<or> derive_date_for_file_ml isd valid header name year_hint =
              (case year_hint of
                 Some y \<Rightarrow> y @ ascii ''0101''
               | None \<Rightarrow> ascii ''19700101'')"
    unfolding e
    using h filename_rule_ml_valid [of isd valid name year_hint]
    by (cases "find valid (header_candidates isd header)";
        cases "filename_rule_ml isd valid name year_hint") simp_all
  show ?thesis
    by (intro conjI impI) (use a b c d g m v in \<open>blast+\<close>)
qed

theorem derive_date_eight_digits_witness:
  "year_hint_ok is_digit (Some (ascii ''2020'')) \<and> year_hint_ok is_digit None
   \<and> derive_date_for_file is_digit (Inr [ascii ''TWSE 20200420 quotes'' @ [10]])
        (ascii ''STKT2QUOTESN(0421).TXT'') (Some (ascii ''2020'')) = ascii ''20200420''
   \<and> derive_date_for_file is_digit (Inl ''missing'')
        (ascii ''STKT2QUOTESN(421).TXT'') (Some (ascii ''2020'')) = ascii ''20200421''
   \<and> derive_date_for_file is_digit (Inr []) (ascii ''STKT2QUOTESN(20200422).TXT'') None =
        ascii ''20200422''
   \<and> derive_date_for_file is_digit (Inr []) (ascii ''STKT2QUOTESN(12345).TXT'')
        (Some (ascii ''2020'')) = ascii ''20200101''
   \<and> derive_date_for_file is_digit (Inr []) (ascii ''STKT2QUOTESN.TXT'') None = ascii ''19700101''
   \<and> date8 is_digit (derive_date_for_file is_digit (Inl ''missing'')
        (ascii ''STKT2QUOTESN(421).TXT'') (Some (ascii ''2020'')))
   \<and> date8 is_digit (derive_date_for_file_ml is_digit month_day_ok (Inl ''missing'')
        (ascii ''STKT2QUOTESN(421).TXT'') (Some (ascii ''2020'')))
   \<and> header_candidates is_digit
        (Inr [ascii ''TWSE 99999999'' @ [10], ascii ''no date'' @ [10],
              ascii ''at 20200420 and 20200421'' @ [10], ascii ''20200423'' @ [10]]) =
        [ascii ''99999999'', ascii ''20200420'']
   \<and> derive_date_for_file is_digit
        (Inr [ascii ''TWSE 99999999'' @ [10], ascii ''no date'' @ [10],
              ascii ''at 20200420 and 20200421'' @ [10], ascii ''20200423'' @ [10]])
        (ascii ''STKT2QUOTESN(0421).TXT'') (Some (ascii ''2020'')) = ascii ''99999999''
   \<and> derive_date_for_file_ml is_digit month_day_ok
        (Inr [ascii ''TWSE 99999999'' @ [10], ascii ''no date'' @ [10],
              ascii ''at 20200420 and 20200421'' @ [10], ascii ''20200423'' @ [10]])
        (ascii ''STKT2QUOTESN(0421).TXT'') (Some (ascii ''2020'')) = ascii ''20200420''
   \<and> derive_date_for_file_ml is_digit month_day_ok (Inl ''missing'')
        (ascii ''STKT2QUOTESN(421).TXT'') (Some (ascii ''2020'')) = ascii ''20200421''
   \<and> derive_date_for_file is_digit (Inr [ascii ''99999999'' @ [10]])
        (ascii ''STKT2QUOTESN(1345).TXT'') (Some (ascii ''2020'')) = ascii ''99999999''
   \<and> derive_date_for_file is_digit (Inr [])
        (ascii ''STKT2QUOTESN(1345).TXT'') (Some (ascii ''2020'')) = ascii ''20201345''
   \<and> derive_date_for_file_ml is_digit month_day_ok (Inr [ascii ''99999999'' @ [10]])
        (ascii ''STKT2QUOTESN(1345).TXT'') (Some (ascii ''2020'')) = ascii ''20200101''
   \<and> derive_date_for_file_ml is_digit month_day_ok (Inr [])
        (ascii ''STKT2QUOTESN(20200422).TXT'') None = ascii ''20200422''
   \<and> derive_date_for_file_ml is_digit month_day_ok (Inr [])
        (ascii ''STKT2QUOTESN(20201345).TXT'') None = ascii ''19700101''
   \<and> month_day_ok (ascii ''20200420'') \<and> month_day_ok (ascii ''20200421'')
   \<and> month_day_ok (ascii ''20200422'')"
proof -
  have d: "\<forall>c. is_digit c \<longrightarrow> is_digit c" by simp
  have h: "year_hint_ok is_digit (Some (ascii ''2020''))" "year_hint_ok is_digit None"
    by (simp_all add: year_hint_ok_def ascii_def is_digit_def)
  have e: "derive_date_for_file is_digit (Inr [ascii ''TWSE 20200420 quotes'' @ [10]])
        (ascii ''STKT2QUOTESN(0421).TXT'') (Some (ascii ''2020'')) = ascii ''20200420''"
    "derive_date_for_file is_digit (Inl ''missing'')
        (ascii ''STKT2QUOTESN(421).TXT'') (Some (ascii ''2020'')) = ascii ''20200421''"
    "derive_date_for_file is_digit (Inr []) (ascii ''STKT2QUOTESN(20200422).TXT'') None =
        ascii ''20200422''"
    "derive_date_for_file is_digit (Inr []) (ascii ''STKT2QUOTESN(12345).TXT'')
        (Some (ascii ''2020'')) = ascii ''20200101''"
    "derive_date_for_file is_digit (Inr []) (ascii ''STKT2QUOTESN.TXT'') None = ascii ''19700101''"
    by (simp_all add: date_eval)
  note t = derive_date_eight_digits [OF d h(1), of "Inl ''missing''"
      "ascii ''STKT2QUOTESN(421).TXT''" month_day_ok]
  have a: "date8 is_digit (derive_date_for_file is_digit (Inl ''missing'')
        (ascii ''STKT2QUOTESN(421).TXT'') (Some (ascii ''2020'')))"
    by (rule t [THEN conjunct1])
  have b: "date8 is_digit (derive_date_for_file_ml is_digit month_day_ok (Inl ''missing'')
        (ascii ''STKT2QUOTESN(421).TXT'') (Some (ascii ''2020'')))"
    by (rule t [THEN conjunct2, THEN conjunct1])
  have k: "header_candidates is_digit
        (Inr [ascii ''TWSE 99999999'' @ [10], ascii ''no date'' @ [10],
              ascii ''at 20200420 and 20200421'' @ [10], ascii ''20200423'' @ [10]]) =
        [ascii ''99999999'', ascii ''20200420'']"
    by (simp add: header_candidates_def List.map_filter_simps date_eval)
  have v: "month_day_ok (ascii ''20200420'')" "month_day_ok (ascii ''20200421'')"
    "month_day_ok (ascii ''20200422'')"
    by (simp_all add: date_eval month_day_ok_def digits_value_def)
  have x: "derive_date_for_file is_digit
        (Inr [ascii ''TWSE 99999999'' @ [10], ascii ''no date'' @ [10],
              ascii ''at 20200420 and 20200421'' @ [10], ascii ''20200423'' @ [10]])
        (ascii ''STKT2QUOTESN(0421).TXT'') (Some (ascii ''2020'')) = ascii ''99999999''"
    "derive_date_for_file is_digit (Inr [ascii ''99999999'' @ [10]])
        (ascii ''STKT2QUOTESN(1345).TXT'') (Some (ascii ''2020'')) = ascii ''99999999''"
    "derive_date_for_file is_digit (Inr [])
        (ascii ''STKT2QUOTESN(1345).TXT'') (Some (ascii ''2020'')) = ascii ''20201345''"
    by (simp_all add: date_eval)
  have y: "derive_date_for_file_ml is_digit month_day_ok
        (Inr [ascii ''TWSE 99999999'' @ [10], ascii ''no date'' @ [10],
              ascii ''at 20200420 and 20200421'' @ [10], ascii ''20200423'' @ [10]])
        (ascii ''STKT2QUOTESN(0421).TXT'') (Some (ascii ''2020'')) = ascii ''20200420''"
    "derive_date_for_file_ml is_digit month_day_ok (Inl ''missing'')
        (ascii ''STKT2QUOTESN(421).TXT'') (Some (ascii ''2020'')) = ascii ''20200421''"
    "derive_date_for_file_ml is_digit month_day_ok (Inr [ascii ''99999999'' @ [10]])
        (ascii ''STKT2QUOTESN(1345).TXT'') (Some (ascii ''2020'')) = ascii ''20200101''"
    "derive_date_for_file_ml is_digit month_day_ok (Inr [])
        (ascii ''STKT2QUOTESN(20200422).TXT'') None = ascii ''20200422''"
    "derive_date_for_file_ml is_digit month_day_ok (Inr [])
        (ascii ''STKT2QUOTESN(20201345).TXT'') None = ascii ''19700101''"
    by (simp_all add: date_eval month_day_ok_def digits_value_def)
  show ?thesis
    by (intro conjI) (rule h e a b k v x y)+
qed

text \<open>
  C7 as stated fails in \<open>extract_stock_for_ml.py\<close>: that copy appends 0101 to any
  non-empty year hint, so the hint 20 gives a string of six digits; and it passes over an
  eight-digit run in the header that is not a calendar date.
\<close>

theorem ml_date_resolver_counterexample:
  "derive_date_for_file_ml is_digit month_day_ok (Inr []) (ascii ''STKT2QUOTESN.TXT'')
      (Some (ascii ''20'')) = ascii ''200101''
   \<and> month_day_ok (ascii ''99999999'') = False
   \<and> search_d8 is_digit (ascii ''99999999'' @ [10]) = Some (ascii ''99999999'')
   \<and> derive_date_for_file_ml is_digit month_day_ok (Inr [ascii ''99999999'' @ [10]])
      (ascii ''STKT2QUOTESN.TXT'') (Some (ascii ''2020'')) = ascii ''20200101''"
  by (simp add: date_eval month_day_ok_def digits_value_def)

text \<open>
  In \<open>extract_quotes_byte_level.py\<close> the hint is tested with \<open>^\d{4}$\<close>, which also
  accepts four digits followed by a newline; such a hint is used as it is.
\<close>

lemma year_hint_with_newline:
  "match_year is_digit (ascii ''2020'' @ [10])
   \<and> derive_date_for_file is_digit (Inr []) (ascii ''STKT2QUOTESN.TXT'')
        (Some (ascii ''2020'' @ [10])) = ascii ''2020'' @ [10] @ ascii ''0101''"
  by (simp add: date_eval)

end
